theory Spec2Isabelle
  imports Main "HOL-Library.Sublist"
begin

section \<open>JavaScript strings, as far as the safety checker uses them\<close>

text \<open>
  A SQL text is a \<^typ>\<open>string\<close>, one \<^typ>\<open>char\<close> per code unit, so a text of code
  units below 256. White space is what \<open>String.prototype.trim\<close> and the regular
  expression class \<open>\s\<close> take as white space in that range: tab, line feed, vertical
  tab, form feed, carriage return, space and the no-break space (code unit 160).
  \<open>toUpperCase\<close> changes the letters \<open>a\<close> to \<open>z\<close>; the letters above code unit 127 are
  left as they are, as the flag \<open>i\<close> of a regular expression leaves them when it
  compares them with an ASCII letter.
\<close>

definition toUpperChar :: "char \<Rightarrow> char" where
  "toUpperChar c =
     (let n = (of_char c :: nat) in if 97 \<le> n \<and> n \<le> 122 then char_of (n - 32) else c)"

definition toUpperCase :: "string \<Rightarrow> string" where
  "toUpperCase s = map toUpperChar s"

definition is_space :: "char \<Rightarrow> bool" where
  "is_space c = (let n = (of_char c :: nat) in (9 \<le> n \<and> n \<le> 13) \<or> n = 32 \<or> n = 160)"

text \<open>The class \<open>\w\<close> of a regular expression: letters, digits and the underscore.\<close>

definition is_word_char :: "char \<Rightarrow> bool" where
  "is_word_char c =
     (let n = (of_char c :: nat)
      in (48 \<le> n \<and> n \<le> 57) \<or> (65 \<le> n \<and> n \<le> 90) \<or> (97 \<le> n \<and> n \<le> 122) \<or> n = 95)"

definition trim :: "string \<Rightarrow> string" where
  "trim s = rev (dropWhile is_space (rev (dropWhile is_space s)))"

fun startsWith :: "string \<Rightarrow> string \<Rightarrow> bool" where
  "startsWith s [] = True"
| "startsWith [] (p # ps) = False"
| "startsWith (c # cs) (p # ps) = (c = p \<and> startsWith cs ps)"

definition endsWith :: "string \<Rightarrow> string \<Rightarrow> bool" where
  "endsWith s p = startsWith (rev s) (rev p)"

fun includes_str :: "string \<Rightarrow> string \<Rightarrow> bool" where
  "includes_str [] p = (p = [])"
| "includes_str (c # cs) p = (startsWith (c # cs) p \<or> includes_str cs p)"

text \<open>\<open>Array.prototype.join\<close> on an array of strings.\<close>

fun join :: "string \<Rightarrow> string list \<Rightarrow> string" where
  "join sep [] = []"
| "join sep [x] = x"
| "join sep (x # y # ys) = x @ sep @ join sep (y # ys)"

section \<open>The regular expressions of \<open>safetyChecker.js\<close>\<close>

text \<open>
  \<open>RegExp.prototype.test\<close> tries every start position of the text from left to right,
  the position after the last character included. \<open>regex_test m prev s\<close> does so for an
  expression whose match at one start position is \<open>m\<close>: \<open>m prev rest\<close> says whether the
  expression matches at the start of \<open>rest\<close>, the character before that position being
  \<open>prev\<close> (\<open>None\<close> at the start of the text).
\<close>

fun regex_test :: "(char option \<Rightarrow> string \<Rightarrow> bool) \<Rightarrow> char option \<Rightarrow> string \<Rightarrow> bool" where
  "regex_test m prev [] = m prev []"
| "regex_test m prev (c # cs) = (m prev (c # cs) \<or> regex_test m (Some c) cs)"

text \<open>
  A literal under the flag \<open>i\<close>: two characters match when their upper-case forms are
  equal.
\<close>

fun starts_ci :: "string \<Rightarrow> string \<Rightarrow> bool" where
  "starts_ci s [] = True"
| "starts_ci [] (p # ps) = False"
| "starts_ci (c # cs) (p # ps) = (toUpperChar c = toUpperChar p \<and> starts_ci cs ps)"

definition last_opt :: "string \<Rightarrow> char option" where
  "last_opt s = (case rev s of [] \<Rightarrow> None | c # _ \<Rightarrow> Some c)"

definition head_opt :: "string \<Rightarrow> char option" where
  "head_opt s = (case s of [] \<Rightarrow> None | c # _ \<Rightarrow> Some c)"

definition is_word :: "char option \<Rightarrow> bool" where
  "is_word x = (case x of None \<Rightarrow> False | Some c \<Rightarrow> is_word_char c)"

text \<open>
  The assertion \<open>\b\<close> holds between two neighbouring positions when exactly one of them
  holds a word character; the outside of the text counts as a non-word character.
\<close>

definition word_boundary :: "char option \<Rightarrow> char option \<Rightarrow> bool" where
  "word_boundary a b = (is_word a \<noteq> is_word b)"

text \<open>
  The expression \<open>\bKEYWORD\b\<close> with flag \<open>i\<close>, built by \<open>new RegExp\<close> for each keyword,
  at one start position.
\<close>

definition keyword_match_here :: "string \<Rightarrow> char option \<Rightarrow> string \<Rightarrow> bool" where
  "keyword_match_here keyword prev rest =
     (word_boundary prev (head_opt rest)
      \<and> starts_ci rest keyword
      \<and> word_boundary (last_opt (take (length keyword) rest))
                       (head_opt (drop (length keyword) rest)))"

definition keyword_regex_test :: "string \<Rightarrow> string \<Rightarrow> bool" where
  "keyword_regex_test keyword s = regex_test (keyword_match_here keyword) None s"

definition DESTRUCTIVE_KEYWORDS :: "string list" where
  "DESTRUCTIVE_KEYWORDS =
     [''DROP'', ''DELETE'', ''UPDATE'', ''INSERT'', ''TRUNCATE'', ''ALTER'', ''CREATE'',
      ''GRANT'', ''REVOKE'', ''EXEC'', ''EXECUTE'']"

text \<open>
  The five entries of \<open>DANGEROUS_PATTERNS\<close>, in the order of the source:
  a semicolon, white space and one of seven statement keywords (flag \<open>i\<close>);
  two hyphens; a slash and a star; \<open>xp_\<close> (flag \<open>i\<close>); \<open>sp_\<close> (flag \<open>i\<close>).
\<close>

datatype pattern = MultipleStatements | SqlComment | BlockComment | ExtendedProc | SystemProc

definition DANGEROUS_PATTERNS :: "pattern list" where
  "DANGEROUS_PATTERNS = [MultipleStatements, SqlComment, BlockComment, ExtendedProc, SystemProc]"

text \<open>The alternation inside the first pattern.\<close>

definition STATEMENT_KEYWORDS :: "string list" where
  "STATEMENT_KEYWORDS =
     [''DROP'', ''DELETE'', ''UPDATE'', ''INSERT'', ''TRUNCATE'', ''ALTER'', ''CREATE'']"

text \<open>
  The first pattern at one start position: the character there is a semicolon; the star
  takes some of the white-space characters that follow, none of them or more, giving up
  one at a time; one of the alternatives starts right after.
\<close>

fun after_spaces :: "string \<Rightarrow> bool" where
  "after_spaces [] = list_ex (starts_ci []) STATEMENT_KEYWORDS"
| "after_spaces (c # cs) =
     (list_ex (starts_ci (c # cs)) STATEMENT_KEYWORDS \<or> (is_space c \<and> after_spaces cs))"

definition multiple_statements_here :: "char option \<Rightarrow> string \<Rightarrow> bool" where
  "multiple_statements_here prev rest =
     (case rest of [] \<Rightarrow> False | c # cs \<Rightarrow> c = CHR '';'' \<and> after_spaces cs)"

definition ci_regex_test :: "string \<Rightarrow> string \<Rightarrow> bool" where
  "ci_regex_test p s = regex_test (\<lambda>prev rest. starts_ci rest p) None s"

fun pattern_test :: "pattern \<Rightarrow> string \<Rightarrow> bool" where
  "pattern_test MultipleStatements s = regex_test multiple_statements_here None s"
| "pattern_test SqlComment s = includes_str s ''--''"
| "pattern_test BlockComment s = includes_str s ''/*''"
| "pattern_test ExtendedProc s = ci_regex_test ''xp_'' s"
| "pattern_test SystemProc s = ci_regex_test ''sp_'' s"

text \<open>\<open>RegExp.prototype.toString\<close>: the source text of the literal, with its flags.\<close>

fun pattern_toString :: "pattern \<Rightarrow> string" where
  "pattern_toString MultipleStatements =
     ''/;'' @ [CHR 0x5C] @ ''s*(DROP|DELETE|UPDATE|INSERT|TRUNCATE|ALTER|CREATE)/i''"
| "pattern_toString SqlComment = ''/--/''"
| "pattern_toString BlockComment = [CHR ''/'', CHR 0x5C, CHR ''/'', CHR 0x5C, CHR ''*'', CHR ''/'']"
| "pattern_toString ExtendedProc = ''/xp_/i''"
| "pattern_toString SystemProc = ''/sp_/i''"

section \<open>\<open>checkQuerySafety\<close>\<close>

record SafetyVerdict =
  safe :: bool
  issues :: "string list"
  warnings :: "string list"

text \<open>
  \<open>result.safe = false; result.issues.push(msg)\<close>, the two statements of every blocking
  branch, and \<open>result.warnings.push(msg)\<close>.
\<close>

definition block :: "string \<Rightarrow> SafetyVerdict \<Rightarrow> SafetyVerdict" where
  "block msg result = result\<lparr>safe := False, issues := issues result @ [msg]\<rparr>"

definition warn :: "string \<Rightarrow> SafetyVerdict \<Rightarrow> SafetyVerdict" where
  "warn msg result = result\<lparr>warnings := warnings result @ [msg]\<rparr>"

definition keyword_issue :: "string \<Rightarrow> string" where
  "keyword_issue keyword = ''Destructive keyword detected: '' @ keyword"

definition pattern_issue :: "pattern \<Rightarrow> string" where
  "pattern_issue p = ''Dangerous pattern detected: '' @ pattern_toString p"

definition semicolonCount :: "string \<Rightarrow> nat" where
  "semicolonCount s = length (filter (\<lambda>c. c = CHR '';'') s)"

definition check_select :: "string \<Rightarrow> SafetyVerdict \<Rightarrow> SafetyVerdict" where
  "check_select normalizedQuery result =
     (if \<not> startsWith normalizedQuery ''SELECT''
      then block ''Query must be a SELECT statement'' result else result)"

definition check_keywords :: "string \<Rightarrow> SafetyVerdict \<Rightarrow> SafetyVerdict" where
  "check_keywords sqlQuery result =
     fold (\<lambda>keyword r. if keyword_regex_test keyword sqlQuery
                        then block (keyword_issue keyword) r else r)
          DESTRUCTIVE_KEYWORDS result"

definition check_patterns :: "string \<Rightarrow> SafetyVerdict \<Rightarrow> SafetyVerdict" where
  "check_patterns sqlQuery result =
     fold (\<lambda>p r. if pattern_test p sqlQuery then block (pattern_issue p) r else r)
          DANGEROUS_PATTERNS result"

definition check_semicolons :: "string \<Rightarrow> SafetyVerdict \<Rightarrow> SafetyVerdict" where
  "check_semicolons sqlQuery result =
     (if semicolonCount sqlQuery > 1
      then block ''Multiple statements detected (SQL injection risk)'' result
      else if semicolonCount sqlQuery = 1 \<and> \<not> endsWith (trim sqlQuery) '';''
      then block ''Semicolon in middle of query (SQL injection risk)'' result
      else result)"

definition check_warnings :: "string \<Rightarrow> SafetyVerdict \<Rightarrow> SafetyVerdict" where
  "check_warnings normalizedQuery result =
     (let result = (if includes_str normalizedQuery ''SELECT *''
                    then warn ''Using SELECT * - consider specifying columns'' result
                    else result)
      in if \<not> includes_str normalizedQuery ''LIMIT'' \<and> \<not> includes_str normalizedQuery ''TOP''
         then warn ''No LIMIT clause - query might return many rows'' result
         else result)"

text \<open>The body of \<open>checkQuerySafety\<close>, one step per block of the source, in its order.\<close>

definition checkQuerySafety :: "string \<Rightarrow> SafetyVerdict" where
  "checkQuerySafety sqlQuery =
     (let result = \<lparr>safe = True, issues = [], warnings = []\<rparr>;
          normalizedQuery = toUpperCase (trim sqlQuery);
          result = check_select normalizedQuery result;
          result = check_keywords sqlQuery result;
          result = check_patterns sqlQuery result;
          result = check_semicolons sqlQuery result
      in check_warnings normalizedQuery result)"

section \<open>The query executor\<close>

text \<open>
  The database is a collaborator: \<open>pool.query\<close> either resolves to a result (rows, row
  count, field descriptions) or rejects with an error (message, code, detail). The two
  readings of the clock around the call are part of its answer, as the elapsed
  milliseconds. A row is opaque.
\<close>

type_synonym row = string

datatype db_reply =
    Resolved "row list" int "(string \<times> int) list option" nat
  | Rejected string string string

text \<open>
  What \<open>executeQuery\<close> returns: the object with \<open>success: true\<close> (rows, rowCount,
  executionTime, fields) or the one with \<open>success: false\<close> (error, code, detail).
\<close>

datatype query_result =
    QueryOk "row list" int string "(string \<times> int) list option"
  | QueryError string string string

text \<open>
  A number in a template literal (\<open>Number.prototype.toString\<close> on an integer): its
  decimal digits, most significant first, after a minus sign when it is negative.
\<close>

definition digit_char :: "nat \<Rightarrow> char" where
  "digit_char d = ''0123456789'' ! d"

fun decimal :: "nat \<Rightarrow> string" where
  "decimal n = (if 10 \<le> n then decimal (n div 10) else []) @ [digit_char (n mod 10)]"

definition number_toString :: "int \<Rightarrow> string" where
  "number_toString i = (if 0 \<le> i then decimal (nat i) else CHR ''-'' # decimal (nat (- i)))"

definition executeQuery :: "(string \<Rightarrow> db_reply) \<Rightarrow> string \<Rightarrow> query_result" where
  "executeQuery pool sqlQuery =
     (case pool sqlQuery of
        Resolved rs rc fs elapsed \<Rightarrow> QueryOk rs rc (decimal elapsed @ ''ms'') fs
      | Rejected message code detail \<Rightarrow> QueryError message code detail)"

text \<open>\<open>replace(/;$/, "")\<close>: a semicolon that is the last character is removed.\<close>

definition remove_trailing_semicolon :: "string \<Rightarrow> string" where
  "remove_trailing_semicolon s = (if endsWith s '';'' then butlast s else s)"

definition executeQuerySafe :: "(string \<Rightarrow> db_reply) \<Rightarrow> string \<Rightarrow> int \<Rightarrow> query_result" where
  "executeQuerySafe pool sqlQuery maxRows =
     (let normalizedQuery = toUpperCase (trim sqlQuery);
          safeQuery = trim sqlQuery;
          safeQuery =
            (if \<not> includes_str normalizedQuery ''LIMIT''
             then remove_trailing_semicolon safeQuery @ '' LIMIT '' @ number_toString maxRows
             else safeQuery)
      in executeQuery pool safeQuery)"

section \<open>The nodes\<close>

record SafetyNodeResult = SafetyVerdict +
  query :: string

definition safetyCheckNode :: "string \<Rightarrow> SafetyNodeResult" where
  "safetyCheckNode sqlQuery =
     (let safetyResult = checkQuerySafety sqlQuery
      in \<lparr>safe = safe safetyResult, issues = issues safetyResult,
          warnings = warnings safetyResult, query = sqlQuery\<rparr>)"

record exec_data =
  rows :: "row list"
  rowCount :: int
  executionTime :: string
  fields_list :: "(string \<times> int) list option"

record exec_error =
  message :: string
  code :: string
  detail :: string

text \<open>
  What \<open>executionNode\<close> returns: \<open>success: true\<close> with \<open>data\<close> and a null \<open>error\<close>, or
  \<open>success: false\<close> with a null \<open>data\<close> and \<open>error\<close>.
\<close>

datatype execution_result = Executed exec_data | ExecutionError exec_error

definition executionNode :: "(string \<Rightarrow> db_reply) \<Rightarrow> string \<Rightarrow> int \<Rightarrow> execution_result" where
  "executionNode pool sqlQuery maxRows =
     (case executeQuerySafe pool sqlQuery maxRows of
        QueryOk rs rc t fs \<Rightarrow>
          Executed \<lparr>rows = rs, rowCount = rc, executionTime = t, fields_list = fs\<rparr>
      | QueryError m c d \<Rightarrow> ExecutionError \<lparr>message = m, code = c, detail = d\<rparr>)"

section \<open>The orchestrator \<open>sqlQueryAgent\<close>\<close>

text \<open>
  The collaborators are parameters. \<open>extractSchema\<close> returns the schema or throws
  (\<open>Inl\<close>, with the message). \<open>generateQuery\<close> and \<open>summarizeResults\<close> catch their own
  errors and return a success flag; the first argument of \<open>generateQuery\<close> is the number
  of the attempt, so that the language model may answer the same arguments differently
  from one call to the next.
\<close>

record column =
  column_name :: string
  data_type :: string
  nullable :: bool
  column_default :: "string option"

type_synonym schema = "(string \<times> column list) list"

datatype generation_result = Generated string string | GenerationError string

datatype summary_result = Summarized string | SummaryError string

record ports =
  extractSchema :: "string + schema"
  generateQuery :: "int \<Rightarrow> string \<Rightarrow> schema \<Rightarrow> string option \<Rightarrow> string option \<Rightarrow> generation_result"
  pool_query :: "string \<Rightarrow> db_reply"
  summarizeResults :: "string \<Rightarrow> exec_data \<Rightarrow> string \<Rightarrow> summary_result"

text \<open>The calls of one run, in their order, with their arguments.\<close>

datatype port_call =
    ExtractSchema
  | GenerateQuery int string schema "string option" "string option"
  | SafetyCheck string
  | Execution string int
  | Summarize string exec_data string

text \<open>
  An exception caught by the \<open>catch\<close> of \<open>sqlQueryAgent\<close>: an error thrown by a
  collaborator, or the TypeError of reading a property of \<open>null\<close>.
\<close>

datatype js_error = Thrown string | NullPropertyRead string

datatype trace_entry =
    T_schema_extraction
  | T_query_generation_failed int string
  | T_query_generation int string
  | T_safety_check int bool "string list" "string list"
  | T_execution bool "int option" "string option"
  | T_summarization bool
  | T_error js_error

text \<open>
  The objects \<open>sqlQueryAgent\<close> returns, one constructor per \<open>return\<close> of the source, with
  the fields of that object in its order; \<open>error_reason\<close> is its \<open>error\<close> field and
  \<open>result_trace\<close> its \<open>trace\<close> field (\<open>None\<close> for \<open>undefined\<close>).
\<close>

datatype AgentResult =
    GenerationFailure string "trace_entry list"
  | RefinementExhausted int "string list" "trace_entry list"
  | ExecutionFailure exec_error string "trace_entry list"
  | SummaryFailure string string exec_data "trace_entry list"
  | Success string string "row list" int string int "string list" "trace_entry list option"
  | UnexpectedError js_error "trace_entry list"

fun succeeded :: "AgentResult \<Rightarrow> bool" where
  "succeeded (Success answer q rs rc t attempts ws tr) = True"
| "succeeded r = False"

fun error_reason :: "AgentResult \<Rightarrow> string option" where
  "error_reason (GenerationFailure details tr) = Some ''Failed to generate SQL query''"
| "error_reason (RefinementExhausted attempts lastIssues tr) =
     Some ''Could not generate a safe query after multiple attempts''"
| "error_reason (ExecutionFailure details q tr) = Some ''Query execution failed''"
| "error_reason (SummaryFailure details q d tr) = Some ''Failed to generate summary''"
| "error_reason (Success answer q rs rc t attempts ws tr) = None"
| "error_reason (UnexpectedError details tr) = Some ''Unexpected error in agent execution''"

fun result_trace :: "AgentResult \<Rightarrow> trace_entry list option" where
  "result_trace (GenerationFailure details tr) = Some tr"
| "result_trace (RefinementExhausted attempts lastIssues tr) = Some tr"
| "result_trace (ExecutionFailure details q tr) = Some tr"
| "result_trace (SummaryFailure details q d tr) = Some tr"
| "result_trace (Success answer q rs rc t attempts ws tr) = tr"
| "result_trace (UnexpectedError details tr) = Some tr"

record options =
  maxRetries :: "int option"
  maxRows :: "int option"
  debug :: "bool option"

text \<open>The variables of \<open>sqlQueryAgent\<close> that the loop reads and writes, and the calls made.\<close>

record loop_state =
  attempt :: int
  previousQuery :: "string option"
  safetyFeedback :: "string option"
  safeQuery :: "string option"
  safetyResult :: "SafetyNodeResult option"
  trace :: "trace_entry list"
  calls :: "port_call list"

text \<open>
  The \<open>while\<close> loop. \<open>Inl\<close> is the \<open>return\<close> inside the loop (generation failed), \<open>Inr\<close>
  the state at the exit of the loop, by \<open>break\<close> or by the loop condition.
\<close>

function generation_loop ::
  "ports \<Rightarrow> string \<Rightarrow> schema \<Rightarrow> int \<Rightarrow> loop_state \<Rightarrow> (AgentResult \<times> port_call list) + loop_state"
where
  "generation_loop P question sch retries st =
     (if attempt st < retries then
        (let n = attempt st + 1;
             queryGenResult = generateQuery P n question sch (previousQuery st) (safetyFeedback st);
             cs = calls st @ [GenerateQuery n question sch (previousQuery st) (safetyFeedback st)]
         in case queryGenResult of
              GenerationError err \<Rightarrow>
                Inl (GenerationFailure err (trace st @ [T_query_generation_failed n err]), cs)
            | Generated generatedQuery rawResponse \<Rightarrow>
                (let tr = trace st @ [T_query_generation n generatedQuery];
                     r = safetyCheckNode generatedQuery;
                     cs = cs @ [SafetyCheck generatedQuery];
                     tr = tr @ [T_safety_check n (safe r) (issues r) (warnings r)]
                 in if safe r
                    then Inr (st\<lparr>attempt := n, safeQuery := Some generatedQuery,
                                 safetyResult := Some r, trace := tr, calls := cs\<rparr>)
                    else generation_loop P question sch retries
                           (st\<lparr>attempt := n, previousQuery := Some generatedQuery,
                               safetyFeedback := Some (join ''; '' (issues r)),
                               safetyResult := Some r, trace := tr, calls := cs\<rparr>)))
      else Inr st)"
  by pat_completeness auto
termination
  by (relation "measure (\<lambda>(P, question, sch, retries, st). nat (retries - attempt st))") auto

text \<open>
  \<open>safetyResult.issues\<close> and \<open>safetyResult.warnings\<close> throw a TypeError when
  \<open>safetyResult\<close> is still \<open>null\<close>; the \<open>catch\<close> pushes the error on the trace and returns
  the generic failure.
\<close>

definition caught :: "js_error \<Rightarrow> trace_entry list \<Rightarrow> AgentResult" where
  "caught err tr = UnexpectedError err (tr @ [T_error err])"

definition no_safe_query :: "loop_state \<Rightarrow> AgentResult \<times> port_call list" where
  "no_safe_query st =
     (case safetyResult st of
        None \<Rightarrow> (caught (NullPropertyRead ''issues'') (trace st), calls st)
      | Some r \<Rightarrow> (RefinementExhausted (attempt st) (issues r) (trace st), calls st))"

text \<open>Steps 5 and 6: execution and summary of the accepted query \<open>q\<close>.\<close>

definition execute_and_summarize ::
  "ports \<Rightarrow> string \<Rightarrow> int \<Rightarrow> bool \<Rightarrow> loop_state \<Rightarrow> string \<Rightarrow> AgentResult \<times> port_call list"
where
  "execute_and_summarize P question rowLimit dbg st q =
     (let executionResult = executionNode (pool_query P) q rowLimit;
          cs = calls st @ [Execution q rowLimit]
      in case executionResult of
           ExecutionError err \<Rightarrow>
             (ExecutionFailure err q (trace st @ [T_execution False None None]), cs)
         | Executed d \<Rightarrow>
             (let tr = trace st @ [T_execution True (Some (rowCount d)) (Some (executionTime d))];
                  summaryResult = summarizeResults P question d q;
                  cs = cs @ [Summarize question d q]
              in case summaryResult of
                   SummaryError err \<Rightarrow>
                     (SummaryFailure err q d (tr @ [T_summarization False]), cs)
                 | Summarized summary \<Rightarrow>
                     (let tr = tr @ [T_summarization True]
                      in case safetyResult st of
                           None \<Rightarrow> (caught (NullPropertyRead ''warnings'') tr, cs)
                         | Some r \<Rightarrow>
                             (Success summary q (rows d) (rowCount d) (executionTime d)
                                (attempt st) (warnings r) (if dbg then Some tr else None),
                              cs))))"

text \<open>
  \<open>sqlQueryAgent\<close>, with the defaults of its options. \<open>!safeQuery\<close> holds for \<open>null\<close> and
  for the empty string.
\<close>

definition sqlQueryAgent :: "ports \<Rightarrow> string \<Rightarrow> options \<Rightarrow> AgentResult \<times> port_call list" where
  "sqlQueryAgent P question opts =
     (let retries = (case maxRetries opts of None \<Rightarrow> 3 | Some n \<Rightarrow> n);
          rowLimit = (case maxRows opts of None \<Rightarrow> 100 | Some n \<Rightarrow> n);
          dbg = (case debug opts of None \<Rightarrow> False | Some b \<Rightarrow> b)
      in case extractSchema P of
           Inl msg \<Rightarrow> (caught (Thrown msg) [], [ExtractSchema])
         | Inr sch \<Rightarrow>
             (case generation_loop P question sch retries
                     \<lparr>attempt = 0, previousQuery = None, safetyFeedback = None,
                      safeQuery = None, safetyResult = None,
                      trace = [T_schema_extraction], calls = [ExtractSchema]\<rparr> of
                Inl returned \<Rightarrow> returned
              | Inr st \<Rightarrow>
                  (case safeQuery st of
                     None \<Rightarrow> no_safe_query st
                   | Some q \<Rightarrow>
                       if q = [] then no_safe_query st
                       else execute_and_summarize P question rowLimit dbg st q)))"

section \<open>The notions of the specification\<close>

text \<open>
  A whole-word, case-insensitive occurrence of a keyword in a text: the text splits into
  three parts, the middle one is the keyword up to the case of its letters, and neither
  the character before it nor the character after it, where there is one, is a word
  character.
\<close>

definition whole_word_occurrence :: "string \<Rightarrow> string \<Rightarrow> bool" where
  "whole_word_occurrence keyword s =
     (\<exists>pre w post. s = pre @ w @ post \<and> toUpperCase w = keyword
        \<and> (pre = [] \<or> \<not> is_word_char (last pre))
        \<and> (post = [] \<or> \<not> is_word_char (hd post)))"

text \<open>A case-insensitive occurrence of \<open>p\<close> anywhere in a text.\<close>

definition contains_ci :: "string \<Rightarrow> string \<Rightarrow> bool" where
  "contains_ci p s = (\<exists>pre w post. s = pre @ w @ post \<and> toUpperCase w = toUpperCase p)"

text \<open>
  A semicolon followed, after white space or none, by one of the statement keywords of
  the first dangerous pattern, in any case of its letters.
\<close>

definition semicolon_then_statement :: "string \<Rightarrow> bool" where
  "semicolon_then_statement s =
     (\<exists>pre ws w post. s = pre @ '';'' @ ws @ w @ post \<and> list_all is_space ws
        \<and> toUpperCase w \<in> set STATEMENT_KEYWORDS)"

text \<open>The same with any of the eleven destructive keywords after the semicolon.\<close>

definition semicolon_then_destructive :: "string \<Rightarrow> bool" where
  "semicolon_then_destructive s =
     (\<exists>pre ws w post. s = pre @ '';'' @ ws @ w @ post \<and> list_all is_space ws
        \<and> toUpperCase w \<in> set DESTRUCTIVE_KEYWORDS)"

text \<open>What each dangerous pattern looks for, in the words of the rules.\<close>

fun pattern_present :: "pattern \<Rightarrow> string \<Rightarrow> bool" where
  "pattern_present MultipleStatements s = semicolon_then_statement s"
| "pattern_present SqlComment s = sublist ''--'' s"
| "pattern_present BlockComment s = sublist ''/*'' s"
| "pattern_present ExtendedProc s = contains_ci ''xp_'' s"
| "pattern_present SystemProc s = contains_ci ''sp_'' s"

text \<open>The calls of the Execution Port, and the results that carry an execution outcome.\<close>

fun is_execution :: "port_call \<Rightarrow> bool" where
  "is_execution (Execution q n) = True"
| "is_execution c = False"

fun is_generation :: "port_call \<Rightarrow> bool" where
  "is_generation (GenerateQuery n question sch prev fb) = True"
| "is_generation c = False"

fun carries_outcome :: "AgentResult \<Rightarrow> bool" where
  "carries_outcome (ExecutionFailure details q tr) = True"
| "carries_outcome (SummaryFailure details q d tr) = True"
| "carries_outcome (Success answer q rs rc t attempts ws tr) = True"
| "carries_outcome r = False"

text \<open>
  A generation call that succeeded with a text the safety checker rejects; a call that
  is not a generation call counts.
\<close>

fun answered_unsafe :: "ports \<Rightarrow> port_call \<Rightarrow> bool" where
  "answered_unsafe P (GenerateQuery n question sch prev fb) =
     (case generateQuery P n question sch prev fb of
        Generated sql raw \<Rightarrow> \<not> safe (checkQuerySafety sql)
      | GenerationError err \<Rightarrow> False)"
| "answered_unsafe P c = True"

text \<open>
  Two generation calls in a row: the first one was answered with a text that the safety
  checker rejects, and the second one, the next attempt for the same question and
  schema, is given that text as the previous attempt and the joined issues of its
  verdict as the feedback.
\<close>

fun feedback_follows :: "ports \<Rightarrow> port_call \<Rightarrow> port_call \<Rightarrow> bool" where
  "feedback_follows P (GenerateQuery n question sch prev fb) (GenerateQuery n' question' sch' prev' fb') =
     (case generateQuery P n question sch prev fb of
        Generated sql raw \<Rightarrow>
          \<not> safe (checkQuerySafety sql)
          \<and> n' = n + 1 \<and> question' = question \<and> sch' = sch \<and> prev' = Some sql
          \<and> fb' = Some (join ''; '' (issues (checkQuerySafety sql)))
      | GenerationError err \<Rightarrow> False)"
| "feedback_follows P c c' = False"

text \<open>The state at the entry of the loop, after the schema was extracted.\<close>

definition initial_state :: loop_state where
  "initial_state = \<lparr>attempt = 0, previousQuery = None, safetyFeedback = None,
                      safeQuery = None, safetyResult = None,
                      trace = [T_schema_extraction], calls = [ExtractSchema]\<rparr>"

text \<open>The calls made when the loop is left, by its \<open>return\<close> or at its exit.\<close>

fun loop_calls :: "(AgentResult \<times> port_call list) + loop_state \<Rightarrow> port_call list" where
  "loop_calls (Inl (r, cs)) = cs"
| "loop_calls (Inr st) = calls st"

section \<open>Collaborators for concrete runs\<close>

text \<open>
  A database with an empty schema that answers every query with one row after five
  milliseconds, a summarizer that always succeeds, and four generators: one that fails,
  one that always proposes a harmless query, one that always proposes a destructive
  statement, and one that proposes the destructive statement twice and then the
  harmless query.
\<close>

definition demo_ports ::
  "(int \<Rightarrow> string \<Rightarrow> schema \<Rightarrow> string option \<Rightarrow> string option \<Rightarrow> generation_result) \<Rightarrow> ports" where
  "demo_ports gen =
     \<lparr>extractSchema = Inr [], generateQuery = gen,
      pool_query = (\<lambda>sql. Resolved [''1''] 1 None 5),
      summarizeResults = (\<lambda>question d sql. Summarized ''One row.'')\<rparr>"

definition gen_fail :: "int \<Rightarrow> string \<Rightarrow> schema \<Rightarrow> string option \<Rightarrow> string option \<Rightarrow> generation_result" where
  "gen_fail n question sch prev fb = GenerationError ''quota exceeded''"

definition gen_safe :: "int \<Rightarrow> string \<Rightarrow> schema \<Rightarrow> string option \<Rightarrow> string option \<Rightarrow> generation_result" where
  "gen_safe n question sch prev fb = Generated ''SELECT 1'' ''SELECT 1''"

definition gen_unsafe :: "int \<Rightarrow> string \<Rightarrow> schema \<Rightarrow> string option \<Rightarrow> string option \<Rightarrow> generation_result" where
  "gen_unsafe n question sch prev fb = Generated ''DROP TABLE t'' ''DROP TABLE t''"

definition gen_third :: "int \<Rightarrow> string \<Rightarrow> schema \<Rightarrow> string option \<Rightarrow> string option \<Rightarrow> generation_result" where
  "gen_third n question sch prev fb =
     (if n < 3 then Generated ''DROP TABLE t'' ''DROP TABLE t''
      else Generated ''SELECT 1'' ''SELECT 1'')"

definition default_options :: options where
  "default_options = \<lparr>maxRetries = None, maxRows = None, debug = None\<rparr>"

section \<open>Evaluation on concrete texts\<close>

subsection \<open>The character functions on the printable ASCII characters\<close>

lemma toUpperChar_ascii:
  "toUpperChar (CHR '' '') = CHR '' ''" "toUpperChar (CHR ''!'') = CHR ''!''"
  "toUpperChar (CHR 0x22) = CHR 0x22" "toUpperChar (CHR ''#'') = CHR ''#''"
  "toUpperChar (CHR ''$'') = CHR ''$''" "toUpperChar (CHR ''%'') = CHR ''%''"
  "toUpperChar (CHR ''&'') = CHR ''&''" "toUpperChar (CHR 0x27) = CHR 0x27"
  "toUpperChar (CHR ''('') = CHR ''(''" "toUpperChar (CHR '')'') = CHR '')''"
  "toUpperChar (CHR ''*'') = CHR ''*''" "toUpperChar (CHR ''+'') = CHR ''+''"
  "toUpperChar (CHR '','') = CHR '',''" "toUpperChar (CHR ''-'') = CHR ''-''"
  "toUpperChar (CHR ''.'') = CHR ''.''" "toUpperChar (CHR ''/'') = CHR ''/''"
  "toUpperChar (CHR ''0'') = CHR ''0''" "toUpperChar (CHR ''1'') = CHR ''1''"
  "toUpperChar (CHR ''2'') = CHR ''2''" "toUpperChar (CHR ''3'') = CHR ''3''"
  "toUpperChar (CHR ''4'') = CHR ''4''" "toUpperChar (CHR ''5'') = CHR ''5''"
  "toUpperChar (CHR ''6'') = CHR ''6''" "toUpperChar (CHR ''7'') = CHR ''7''"
  "toUpperChar (CHR ''8'') = CHR ''8''" "toUpperChar (CHR ''9'') = CHR ''9''"
  "toUpperChar (CHR '':'') = CHR '':''" "toUpperChar (CHR '';'') = CHR '';''"
  "toUpperChar (CHR ''<'') = CHR ''<''" "toUpperChar (CHR ''='') = CHR ''=''"
  "toUpperChar (CHR ''>'') = CHR ''>''" "toUpperChar (CHR ''?'') = CHR ''?''"
  "toUpperChar (CHR ''@'') = CHR ''@''" "toUpperChar (CHR ''A'') = CHR ''A''"
  "toUpperChar (CHR ''B'') = CHR ''B''" "toUpperChar (CHR ''C'') = CHR ''C''"
  "toUpperChar (CHR ''D'') = CHR ''D''" "toUpperChar (CHR ''E'') = CHR ''E''"
  "toUpperChar (CHR ''F'') = CHR ''F''" "toUpperChar (CHR ''G'') = CHR ''G''"
  "toUpperChar (CHR ''H'') = CHR ''H''" "toUpperChar (CHR ''I'') = CHR ''I''"
  "toUpperChar (CHR ''J'') = CHR ''J''" "toUpperChar (CHR ''K'') = CHR ''K''"
  "toUpperChar (CHR ''L'') = CHR ''L''" "toUpperChar (CHR ''M'') = CHR ''M''"
  "toUpperChar (CHR ''N'') = CHR ''N''" "toUpperChar (CHR ''O'') = CHR ''O''"
  "toUpperChar (CHR ''P'') = CHR ''P''" "toUpperChar (CHR ''Q'') = CHR ''Q''"
  "toUpperChar (CHR ''R'') = CHR ''R''" "toUpperChar (CHR ''S'') = CHR ''S''"
  "toUpperChar (CHR ''T'') = CHR ''T''" "toUpperChar (CHR ''U'') = CHR ''U''"
  "toUpperChar (CHR ''V'') = CHR ''V''" "toUpperChar (CHR ''W'') = CHR ''W''"
  "toUpperChar (CHR ''X'') = CHR ''X''" "toUpperChar (CHR ''Y'') = CHR ''Y''"
  "toUpperChar (CHR ''Z'') = CHR ''Z''" "toUpperChar (CHR ''['') = CHR ''[''"
  "toUpperChar (CHR 0x5C) = CHR 0x5C" "toUpperChar (CHR '']'') = CHR '']''"
  "toUpperChar (CHR ''^'') = CHR ''^''" "toUpperChar (CHR ''_'') = CHR ''_''"
  "toUpperChar (CHR 0x60) = CHR 0x60" "toUpperChar (CHR ''a'') = CHR ''A''"
  "toUpperChar (CHR ''b'') = CHR ''B''" "toUpperChar (CHR ''c'') = CHR ''C''"
  "toUpperChar (CHR ''d'') = CHR ''D''" "toUpperChar (CHR ''e'') = CHR ''E''"
  "toUpperChar (CHR ''f'') = CHR ''F''" "toUpperChar (CHR ''g'') = CHR ''G''"
  "toUpperChar (CHR ''h'') = CHR ''H''" "toUpperChar (CHR ''i'') = CHR ''I''"
  "toUpperChar (CHR ''j'') = CHR ''J''" "toUpperChar (CHR ''k'') = CHR ''K''"
  "toUpperChar (CHR ''l'') = CHR ''L''" "toUpperChar (CHR ''m'') = CHR ''M''"
  "toUpperChar (CHR ''n'') = CHR ''N''" "toUpperChar (CHR ''o'') = CHR ''O''"
  "toUpperChar (CHR ''p'') = CHR ''P''" "toUpperChar (CHR ''q'') = CHR ''Q''"
  "toUpperChar (CHR ''r'') = CHR ''R''" "toUpperChar (CHR ''s'') = CHR ''S''"
  "toUpperChar (CHR ''t'') = CHR ''T''" "toUpperChar (CHR ''u'') = CHR ''U''"
  "toUpperChar (CHR ''v'') = CHR ''V''" "toUpperChar (CHR ''w'') = CHR ''W''"
  "toUpperChar (CHR ''x'') = CHR ''X''" "toUpperChar (CHR ''y'') = CHR ''Y''"
  "toUpperChar (CHR ''z'') = CHR ''Z''" "toUpperChar (CHR ''{'') = CHR ''{''"
  "toUpperChar (CHR ''|'') = CHR ''|''" "toUpperChar (CHR ''}'') = CHR ''}''"
  "toUpperChar (CHR ''~'') = CHR ''~''"
  by code_simp+

lemma is_word_char_ascii:
  "is_word_char (CHR '' '') = False" "is_word_char (CHR ''!'') = False"
  "is_word_char (CHR 0x22) = False" "is_word_char (CHR ''#'') = False"
  "is_word_char (CHR ''$'') = False" "is_word_char (CHR ''%'') = False"
  "is_word_char (CHR ''&'') = False" "is_word_char (CHR 0x27) = False"
  "is_word_char (CHR ''('') = False" "is_word_char (CHR '')'') = False"
  "is_word_char (CHR ''*'') = False" "is_word_char (CHR ''+'') = False"
  "is_word_char (CHR '','') = False" "is_word_char (CHR ''-'') = False"
  "is_word_char (CHR ''.'') = False" "is_word_char (CHR ''/'') = False"
  "is_word_char (CHR ''0'') = True" "is_word_char (CHR ''1'') = True"
  "is_word_char (CHR ''2'') = True" "is_word_char (CHR ''3'') = True"
  "is_word_char (CHR ''4'') = True" "is_word_char (CHR ''5'') = True"
  "is_word_char (CHR ''6'') = True" "is_word_char (CHR ''7'') = True"
  "is_word_char (CHR ''8'') = True" "is_word_char (CHR ''9'') = True"
  "is_word_char (CHR '':'') = False" "is_word_char (CHR '';'') = False"
  "is_word_char (CHR ''<'') = False" "is_word_char (CHR ''='') = False"
  "is_word_char (CHR ''>'') = False" "is_word_char (CHR ''?'') = False"
  "is_word_char (CHR ''@'') = False" "is_word_char (CHR ''A'') = True"
  "is_word_char (CHR ''B'') = True" "is_word_char (CHR ''C'') = True"
  "is_word_char (CHR ''D'') = True" "is_word_char (CHR ''E'') = True"
  "is_word_char (CHR ''F'') = True" "is_word_char (CHR ''G'') = True"
  "is_word_char (CHR ''H'') = True" "is_word_char (CHR ''I'') = True"
  "is_word_char (CHR ''J'') = True" "is_word_char (CHR ''K'') = True"
  "is_word_char (CHR ''L'') = True" "is_word_char (CHR ''M'') = True"
  "is_word_char (CHR ''N'') = True" "is_word_char (CHR ''O'') = True"
  "is_word_char (CHR ''P'') = True" "is_word_char (CHR ''Q'') = True"
  "is_word_char (CHR ''R'') = True" "is_word_char (CHR ''S'') = True"
  "is_word_char (CHR ''T'') = True" "is_word_char (CHR ''U'') = True"
  "is_word_char (CHR ''V'') = True" "is_word_char (CHR ''W'') = True"
  "is_word_char (CHR ''X'') = True" "is_word_char (CHR ''Y'') = True"
  "is_word_char (CHR ''Z'') = True" "is_word_char (CHR ''['') = False"
  "is_word_char (CHR 0x5C) = False" "is_word_char (CHR '']'') = False"
  "is_word_char (CHR ''^'') = False" "is_word_char (CHR ''_'') = True"
  "is_word_char (CHR 0x60) = False" "is_word_char (CHR ''a'') = True"
  "is_word_char (CHR ''b'') = True" "is_word_char (CHR ''c'') = True"
  "is_word_char (CHR ''d'') = True" "is_word_char (CHR ''e'') = True"
  "is_word_char (CHR ''f'') = True" "is_word_char (CHR ''g'') = True"
  "is_word_char (CHR ''h'') = True" "is_word_char (CHR ''i'') = True"
  "is_word_char (CHR ''j'') = True" "is_word_char (CHR ''k'') = True"
  "is_word_char (CHR ''l'') = True" "is_word_char (CHR ''m'') = True"
  "is_word_char (CHR ''n'') = True" "is_word_char (CHR ''o'') = True"
  "is_word_char (CHR ''p'') = True" "is_word_char (CHR ''q'') = True"
  "is_word_char (CHR ''r'') = True" "is_word_char (CHR ''s'') = True"
  "is_word_char (CHR ''t'') = True" "is_word_char (CHR ''u'') = True"
  "is_word_char (CHR ''v'') = True" "is_word_char (CHR ''w'') = True"
  "is_word_char (CHR ''x'') = True" "is_word_char (CHR ''y'') = True"
  "is_word_char (CHR ''z'') = True" "is_word_char (CHR ''{'') = False"
  "is_word_char (CHR ''|'') = False" "is_word_char (CHR ''}'') = False"
  "is_word_char (CHR ''~'') = False"
  by code_simp+

lemma is_space_ascii:
  "is_space (CHR '' '') = True" "is_space (CHR ''!'') = False" "is_space (CHR 0x22) = False"
  "is_space (CHR ''#'') = False" "is_space (CHR ''$'') = False" "is_space (CHR ''%'') = False"
  "is_space (CHR ''&'') = False" "is_space (CHR 0x27) = False" "is_space (CHR ''('') = False"
  "is_space (CHR '')'') = False" "is_space (CHR ''*'') = False" "is_space (CHR ''+'') = False"
  "is_space (CHR '','') = False" "is_space (CHR ''-'') = False" "is_space (CHR ''.'') = False"
  "is_space (CHR ''/'') = False" "is_space (CHR ''0'') = False" "is_space (CHR ''1'') = False"
  "is_space (CHR ''2'') = False" "is_space (CHR ''3'') = False" "is_space (CHR ''4'') = False"
  "is_space (CHR ''5'') = False" "is_space (CHR ''6'') = False" "is_space (CHR ''7'') = False"
  "is_space (CHR ''8'') = False" "is_space (CHR ''9'') = False" "is_space (CHR '':'') = False"
  "is_space (CHR '';'') = False" "is_space (CHR ''<'') = False" "is_space (CHR ''='') = False"
  "is_space (CHR ''>'') = False" "is_space (CHR ''?'') = False" "is_space (CHR ''@'') = False"
  "is_space (CHR ''A'') = False" "is_space (CHR ''B'') = False" "is_space (CHR ''C'') = False"
  "is_space (CHR ''D'') = False" "is_space (CHR ''E'') = False" "is_space (CHR ''F'') = False"
  "is_space (CHR ''G'') = False" "is_space (CHR ''H'') = False" "is_space (CHR ''I'') = False"
  "is_space (CHR ''J'') = False" "is_space (CHR ''K'') = False" "is_space (CHR ''L'') = False"
  "is_space (CHR ''M'') = False" "is_space (CHR ''N'') = False" "is_space (CHR ''O'') = False"
  "is_space (CHR ''P'') = False" "is_space (CHR ''Q'') = False" "is_space (CHR ''R'') = False"
  "is_space (CHR ''S'') = False" "is_space (CHR ''T'') = False" "is_space (CHR ''U'') = False"
  "is_space (CHR ''V'') = False" "is_space (CHR ''W'') = False" "is_space (CHR ''X'') = False"
  "is_space (CHR ''Y'') = False" "is_space (CHR ''Z'') = False" "is_space (CHR ''['') = False"
  "is_space (CHR 0x5C) = False" "is_space (CHR '']'') = False" "is_space (CHR ''^'') = False"
  "is_space (CHR ''_'') = False" "is_space (CHR 0x60) = False" "is_space (CHR ''a'') = False"
  "is_space (CHR ''b'') = False" "is_space (CHR ''c'') = False" "is_space (CHR ''d'') = False"
  "is_space (CHR ''e'') = False" "is_space (CHR ''f'') = False" "is_space (CHR ''g'') = False"
  "is_space (CHR ''h'') = False" "is_space (CHR ''i'') = False" "is_space (CHR ''j'') = False"
  "is_space (CHR ''k'') = False" "is_space (CHR ''l'') = False" "is_space (CHR ''m'') = False"
  "is_space (CHR ''n'') = False" "is_space (CHR ''o'') = False" "is_space (CHR ''p'') = False"
  "is_space (CHR ''q'') = False" "is_space (CHR ''r'') = False" "is_space (CHR ''s'') = False"
  "is_space (CHR ''t'') = False" "is_space (CHR ''u'') = False" "is_space (CHR ''v'') = False"
  "is_space (CHR ''w'') = False" "is_space (CHR ''x'') = False" "is_space (CHR ''y'') = False"
  "is_space (CHR ''z'') = False" "is_space (CHR ''{'') = False" "is_space (CHR ''|'') = False"
  "is_space (CHR ''}'') = False" "is_space (CHR ''~'') = False"
  by code_simp+

text \<open>The no-break space.\<close>

lemma no_break_space:
  "is_space (CHR 0xA0) = True" "toUpperChar (CHR 0xA0) = CHR 0xA0"
  "is_word_char (CHR 0xA0) = False"
  by code_simp+

lemmas js_eval = toUpperChar_ascii is_word_char_ascii is_space_ascii toUpperCase_def trim_def
  endsWith_def keyword_regex_test_def keyword_match_here_def word_boundary_def is_word_def
  head_opt_def last_opt_def multiple_statements_here_def ci_regex_test_def
  STATEMENT_KEYWORDS_def DESTRUCTIVE_KEYWORDS_def DANGEROUS_PATTERNS_def

lemmas check_eval = checkQuerySafety_def check_select_def check_keywords_def check_patterns_def
  check_semicolons_def check_warnings_def block_def warn_def keyword_issue_def pattern_issue_def
  semicolonCount_def

section \<open>The string functions and the regular expressions, declaratively\<close>

lemma startsWith_prefix: "startsWith s p \<longleftrightarrow> prefix p s"
  by (induction s p rule: startsWith.induct) auto

lemma includes_str_sublist: "includes_str s p \<longleftrightarrow> sublist p s"
  by (induction s) (auto simp: startsWith_prefix sublist_Cons_right)

lemma endsWith_suffix: "endsWith s p \<longleftrightarrow> suffix p s"
  by (simp add: endsWith_def startsWith_prefix suffix_to_prefix)


lemma toUpperCase_append [simp]: "toUpperCase (a @ b) = toUpperCase a @ toUpperCase b"
  by (simp add: toUpperCase_def)

lemma regex_test_iff:
  "regex_test m prev s \<longleftrightarrow>
     (\<exists>pre rest. s = pre @ rest \<and> m (if pre = [] then prev else Some (last pre)) rest)"
proof (induction s arbitrary: prev)
  case Nil
  then show ?case by simp
next
  case (Cons c cs)
  show ?case
  proof
    assume "regex_test m prev (c # cs)"
    then consider "m prev (c # cs)" | "regex_test m (Some c) cs" by auto
    then show "\<exists>pre rest. c # cs = pre @ rest \<and> m (if pre = [] then prev else Some (last pre)) rest"
    proof cases
      case 1
      then have "c # cs = [] @ (c # cs) \<and> m (if ([]::string) = [] then prev else Some (last [])) (c # cs)"
        by simp
      then show ?thesis by blast
    next
      case 2
      then obtain pre rest where pr: "cs = pre @ rest"
        and m: "m (if pre = [] then Some c else Some (last pre)) rest"
        using Cons.IH by blast
      have "c # cs = (c # pre) @ rest" using pr by simp
      moreover have "m (if c # pre = [] then prev else Some (last (c # pre))) rest"
        using m by (cases pre) simp_all
      ultimately show ?thesis by blast
    qed
  next
    assume "\<exists>pre rest. c # cs = pre @ rest \<and> m (if pre = [] then prev else Some (last pre)) rest"
    then obtain pre rest where pr: "c # cs = pre @ rest"
      and m: "m (if pre = [] then prev else Some (last pre)) rest" by blast
    show "regex_test m prev (c # cs)"
    proof (cases pre)
      case Nil
      then have "rest = c # cs" using pr by simp
      then show ?thesis using m Nil by simp
    next
      case (Cons a pre')
      then have cs: "cs = pre' @ rest" and a: "a = c" using pr by simp_all
      have "m (if pre' = [] then Some c else Some (last pre')) rest"
        using m Cons a by (cases pre') simp_all
      then have "regex_test m (Some c) cs" using Cons.IH cs by blast
      then show ?thesis by simp
    qed
  qed
qed

lemma starts_ci_iff:
  "starts_ci s p \<longleftrightarrow> (\<exists>w post. s = w @ post \<and> toUpperCase w = toUpperCase p)"
proof (induction s p rule: starts_ci.induct)
  case (1 s)
  then show ?case by (simp add: toUpperCase_def)
next
  case (2 p ps)
  then show ?case by (simp add: toUpperCase_def)
next
  case (3 c cs p ps)
  show ?case
  proof
    assume "starts_ci (c # cs) (p # ps)"
    then have h: "toUpperChar c = toUpperChar p" and "starts_ci cs ps" by simp_all
    then obtain w post where "cs = w @ post" "toUpperCase w = toUpperCase ps" using 3 by blast
    then have "c # cs = (c # w) @ post \<and> toUpperCase (c # w) = toUpperCase (p # ps)"
      using h by (simp add: toUpperCase_def)
    then show "\<exists>w post. c # cs = w @ post \<and> toUpperCase w = toUpperCase (p # ps)" by blast
  next
    assume "\<exists>w post. c # cs = w @ post \<and> toUpperCase w = toUpperCase (p # ps)"
    then obtain w post where w: "c # cs = w @ post" "toUpperCase w = toUpperCase (p # ps)" by blast
    then obtain w' where w': "w = c # w'" by (cases w) (auto simp: toUpperCase_def)
    then have "cs = w' @ post" "toUpperCase w' = toUpperCase ps" "toUpperChar c = toUpperChar p"
      using w by (simp_all add: toUpperCase_def)
    then show "starts_ci (c # cs) (p # ps)" using 3 by auto
  qed
qed

lemma length_toUpperCase [simp]: "length (toUpperCase s) = length s"
  by (simp add: toUpperCase_def)

lemma of_char_char_of_small: "n < 256 \<Longrightarrow> of_char (char_of n) = (n::nat)"
  by (simp add: of_char_of)

lemma is_word_char_toUpperChar [simp]: "is_word_char (toUpperChar c) = is_word_char c"
proof -
  let ?n = "of_char c :: nat"
  show ?thesis
  proof (cases "97 \<le> ?n \<and> ?n \<le> 122")
    case True
    then have "of_char (char_of (?n - 32)) = ?n - 32" by (intro of_char_char_of_small) arith
    with True show ?thesis by (auto simp: is_word_char_def toUpperChar_def Let_def)
  next
    case False
    then show ?thesis by (auto simp: toUpperChar_def Let_def)
  qed
qed

lemma keyword_match_here_iff:
  assumes k: "keyword \<noteq> []" "list_all is_word_char keyword"
  shows "keyword_match_here keyword prev rest \<longleftrightarrow>
     (\<not> is_word prev \<and> (\<exists>w post. rest = w @ post \<and> toUpperCase w = toUpperCase keyword
         \<and> (post = [] \<or> \<not> is_word_char (hd post))))"
proof -
  have word_of: "list_all is_word_char w" if "toUpperCase w = toUpperCase keyword" for w
  proof -
    have "list_all is_word_char (toUpperCase keyword)"
      using k(2) by (induction keyword) (simp_all add: toUpperCase_def)
    then have "list_all is_word_char (toUpperCase w)" using that by simp
    then show ?thesis by (induction w) (simp_all add: toUpperCase_def)
  qed
  have len: "length w = length keyword" if "toUpperCase w = toUpperCase keyword" for w
    using that by (metis length_toUpperCase)
  show ?thesis
  proof
    assume a: "keyword_match_here keyword prev rest"
    then obtain w post where wp: "rest = w @ post" "toUpperCase w = toUpperCase keyword"
      by (auto simp: keyword_match_here_def starts_ci_iff)
    have lw: "length w = length keyword" using wp(2) len by blast
    have wne: "w \<noteq> []" using lw k(1) by auto
    have ww: "list_all is_word_char w" using word_of wp(2) by blast
    have hd: "is_word (head_opt rest)"
      using wne ww wp(1) by (cases w) (simp_all add: is_word_def head_opt_def)
    have "take (length keyword) rest = w" using wp(1) lw by simp
    then have lst: "is_word (last_opt (take (length keyword) rest))"
      using wne ww by (cases w rule: rev_cases) (simp_all add: is_word_def last_opt_def)
    have "drop (length keyword) rest = post" using wp(1) lw by simp
    then have "\<not> is_word (head_opt post)" using a lst by (simp add: keyword_match_here_def word_boundary_def)
    then have "post = [] \<or> \<not> is_word_char (hd post)"
      by (cases post) (simp_all add: is_word_def head_opt_def)
    moreover have "\<not> is_word prev" using a hd by (simp add: keyword_match_here_def word_boundary_def)
    ultimately show "\<not> is_word prev \<and> (\<exists>w post. rest = w @ post \<and> toUpperCase w = toUpperCase keyword
         \<and> (post = [] \<or> \<not> is_word_char (hd post)))" using wp by blast
  next
    assume "\<not> is_word prev \<and> (\<exists>w post. rest = w @ post \<and> toUpperCase w = toUpperCase keyword
         \<and> (post = [] \<or> \<not> is_word_char (hd post)))"
    then obtain w post where p: "\<not> is_word prev" and wp: "rest = w @ post" "toUpperCase w = toUpperCase keyword"
      and post: "post = [] \<or> \<not> is_word_char (hd post)" by blast
    have lw: "length w = length keyword" using wp(2) len by blast
    have wne: "w \<noteq> []" using lw k(1) by auto
    have ww: "list_all is_word_char w" using word_of wp(2) by blast
    have hd: "is_word (head_opt rest)"
      using wne ww wp(1) by (cases w) (simp_all add: is_word_def head_opt_def)
    have "take (length keyword) rest = w" using wp(1) lw by simp
    then have lst: "is_word (last_opt (take (length keyword) rest))"
      using wne ww by (cases w rule: rev_cases) (simp_all add: is_word_def last_opt_def)
    have d: "drop (length keyword) rest = post" using wp(1) lw by simp
    have "\<not> is_word (head_opt post)" using post by (cases post) (simp_all add: is_word_def head_opt_def)
    moreover have "starts_ci rest keyword" using wp starts_ci_iff by blast
    ultimately show "keyword_match_here keyword prev rest"
      using p hd lst d by (simp add: keyword_match_here_def word_boundary_def)
  qed
qed

lemma keyword_regex_test_iff:
  assumes k: "keyword \<noteq> []" "list_all is_word_char keyword" "toUpperCase keyword = keyword"
  shows "keyword_regex_test keyword s \<longleftrightarrow> whole_word_occurrence keyword s"
proof -
  have b: "(\<not> is_word (if pre = [] then None else Some (last pre))) = (pre = [] \<or> \<not> is_word_char (last pre))" for pre
    by (simp add: is_word_def)
  show ?thesis
    unfolding keyword_regex_test_def regex_test_iff keyword_match_here_iff[OF k(1,2)] b k(3)
      whole_word_occurrence_def
    by blast
qed

lemma regex_test_plain_iff:
  "regex_test (\<lambda>prev rest. m rest) prev s \<longleftrightarrow> (\<exists>pre rest. s = pre @ rest \<and> m rest)"
proof (induction s arbitrary: prev)
  case Nil
  then show ?case by simp
next
  case (Cons c cs)
  have "(\<exists>pre rest. c # cs = pre @ rest \<and> m rest) \<longleftrightarrow> m (c # cs) \<or> (\<exists>pre rest. cs = pre @ rest \<and> m rest)"
    by (auto simp: Cons_eq_append_conv)
  then show ?case using Cons.IH by simp
qed

lemma ci_regex_test_iff: "ci_regex_test p s \<longleftrightarrow> contains_ci p s"
  unfolding ci_regex_test_def regex_test_plain_iff starts_ci_iff contains_ci_def by blast

lemma statement_keyword_here:
  "list_ex (starts_ci s) STATEMENT_KEYWORDS \<longleftrightarrow>
     (\<exists>w post. s = w @ post \<and> toUpperCase w \<in> set STATEMENT_KEYWORDS)"
proof -
  have up: "toUpperCase k = k" if "k \<in> set STATEMENT_KEYWORDS" for k
    using that by (auto simp: STATEMENT_KEYWORDS_def toUpperCase_def toUpperChar_ascii)
  show ?thesis
  proof
    assume "list_ex (starts_ci s) STATEMENT_KEYWORDS"
    then obtain k where k: "k \<in> set STATEMENT_KEYWORDS" "starts_ci s k" by (auto simp: list_ex_iff)
    then obtain w post where "s = w @ post" "toUpperCase w = toUpperCase k"
      using starts_ci_iff by blast
    then show "\<exists>w post. s = w @ post \<and> toUpperCase w \<in> set STATEMENT_KEYWORDS"
      using k(1) up by auto
  next
    assume "\<exists>w post. s = w @ post \<and> toUpperCase w \<in> set STATEMENT_KEYWORDS"
    then obtain w post where h: "s = w @ post" "toUpperCase w \<in> set STATEMENT_KEYWORDS" by blast
    then have "toUpperCase w = toUpperCase (toUpperCase w)" using up by simp
    then have "starts_ci s (toUpperCase w)" using h(1) starts_ci_iff by blast
    then show "list_ex (starts_ci s) STATEMENT_KEYWORDS" using h(2) by (auto simp: list_ex_iff)
  qed
qed

lemma after_spaces_iff:
  "after_spaces s \<longleftrightarrow>
     (\<exists>ws w post. s = ws @ w @ post \<and> list_all is_space ws \<and> toUpperCase w \<in> set STATEMENT_KEYWORDS)"
proof (induction s)
  case Nil
  have "[] \<notin> set STATEMENT_KEYWORDS" by (simp add: STATEMENT_KEYWORDS_def)
  then show ?case by (simp add: statement_keyword_here toUpperCase_def)
next
  case (Cons c cs)
  show ?case
  proof
    assume "after_spaces (c # cs)"
    then consider "list_ex (starts_ci (c # cs)) STATEMENT_KEYWORDS" | "is_space c" "after_spaces cs"
      by auto
    then show "\<exists>ws w post. c # cs = ws @ w @ post \<and> list_all is_space ws \<and> toUpperCase w \<in> set STATEMENT_KEYWORDS"
    proof cases
      case 1
      then obtain w post where "c # cs = [] @ w @ post" "toUpperCase w \<in> set STATEMENT_KEYWORDS"
        using statement_keyword_here by auto
      moreover have "list_all is_space []" by simp
      ultimately show ?thesis by blast
    next
      case 2
      then obtain ws w post where "cs = ws @ w @ post" "list_all is_space ws"
        "toUpperCase w \<in> set STATEMENT_KEYWORDS" using Cons.IH by blast
      then have "c # cs = (c # ws) @ w @ post" "list_all is_space (c # ws)" using 2 by simp_all
      then show ?thesis using \<open>toUpperCase w \<in> set STATEMENT_KEYWORDS\<close> by blast
    qed
  next
    assume "\<exists>ws w post. c # cs = ws @ w @ post \<and> list_all is_space ws \<and> toUpperCase w \<in> set STATEMENT_KEYWORDS"
    then obtain ws w post where h: "c # cs = ws @ w @ post" "list_all is_space ws"
        "toUpperCase w \<in> set STATEMENT_KEYWORDS" by blast
    show "after_spaces (c # cs)"
    proof (cases ws)
      case Nil
      then have "list_ex (starts_ci (c # cs)) STATEMENT_KEYWORDS"
        using statement_keyword_here h by auto
      then show ?thesis by simp
    next
      case (Cons a ws')
      then have "a = c" "cs = ws' @ w @ post" "is_space c" "list_all is_space ws'" using h by auto
      then have "after_spaces cs" using Cons.IH h(3) by blast
      then show ?thesis using \<open>is_space c\<close> by simp
    qed
  qed
qed

lemma multiple_statements_here_iff:
  "multiple_statements_here prev rest \<longleftrightarrow>
     (\<exists>ws w post. rest = '';'' @ ws @ w @ post \<and> list_all is_space ws
        \<and> toUpperCase w \<in> set STATEMENT_KEYWORDS)"
  by (cases rest) (auto simp: multiple_statements_here_def after_spaces_iff)

lemma multiple_statements_iff:
  "pattern_test MultipleStatements s \<longleftrightarrow> semicolon_then_statement s"
proof -
  have "multiple_statements_here = (\<lambda>prev rest.
     (\<exists>ws w post. rest = '';'' @ ws @ w @ post \<and> list_all is_space ws \<and> toUpperCase w \<in> set STATEMENT_KEYWORDS))"
    by (intro ext) (rule multiple_statements_here_iff)
  then have "pattern_test MultipleStatements s \<longleftrightarrow>
     regex_test (\<lambda>prev rest. (\<exists>ws w post. rest = '';'' @ ws @ w @ post \<and> list_all is_space ws
        \<and> toUpperCase w \<in> set STATEMENT_KEYWORDS)) None s"
    by simp
  also have "\<dots> \<longleftrightarrow> (\<exists>pre rest. s = pre @ rest \<and> (\<exists>ws w post. rest = '';'' @ ws @ w @ post
        \<and> list_all is_space ws \<and> toUpperCase w \<in> set STATEMENT_KEYWORDS))"
    by (rule regex_test_plain_iff)
  also have "\<dots> \<longleftrightarrow> semicolon_then_statement s"
    unfolding semicolon_then_statement_def by blast
  finally show ?thesis .
qed

lemma pattern_test_iff: "pattern_test p s \<longleftrightarrow> pattern_present p s"
  by (cases p) (simp_all add: multiple_statements_iff includes_str_sublist ci_regex_test_iff del: pattern_test.simps(1))

section \<open>The verdict of \<open>checkQuerySafety\<close>, rule by rule\<close>

lemma issues_block [simp]: "issues (block m r) = issues r @ [m]"
  and safe_block [simp]: "safe (block m r) = False"
  and warnings_block [simp]: "warnings (block m r) = warnings r"
  by (simp_all add: block_def)

lemma issues_warn [simp]: "issues (warn m r) = issues r"
  and safe_warn [simp]: "safe (warn m r) = safe r"
  and warnings_warn [simp]: "warnings (warn m r) = warnings r @ [m]"
  by (simp_all add: warn_def)

lemma fold_block_issues:
  "issues (fold (\<lambda>x r. if P x then block (f x) r else r) xs r0) = issues r0 @ map f (filter P xs)"
  by (induction xs arbitrary: r0) simp_all

lemma fold_block_safe:
  "safe (fold (\<lambda>x r. if P x then block (f x) r else r) xs r0) = (safe r0 \<and> filter P xs = [])"
  by (induction xs arbitrary: r0) simp_all

lemma fold_block_warnings:
  "warnings (fold (\<lambda>x r. if P x then block (f x) r else r) xs r0) = warnings r0"
  by (induction xs arbitrary: r0) simp_all

lemma check_warnings_keeps [simp]:
  "issues (check_warnings n r) = issues r" "safe (check_warnings n r) = safe r"
  by (simp_all add: check_warnings_def Let_def)

lemma issues_checkQuerySafety:
  "issues (checkQuerySafety s) =
     (if startsWith (toUpperCase (trim s)) ''SELECT'' then [] else [''Query must be a SELECT statement''])
     @ map keyword_issue (filter (\<lambda>k. keyword_regex_test k s) DESTRUCTIVE_KEYWORDS)
     @ map pattern_issue (filter (\<lambda>p. pattern_test p s) DANGEROUS_PATTERNS)
     @ (if semicolonCount s > 1 then [''Multiple statements detected (SQL injection risk)'']
        else if semicolonCount s = 1 \<and> \<not> endsWith (trim s) '';''
        then [''Semicolon in middle of query (SQL injection risk)''] else [])"
  by (simp add: checkQuerySafety_def check_select_def check_keywords_def check_patterns_def
      check_semicolons_def fold_block_issues Let_def)

lemma safe_checkQuerySafety:
  "safe (checkQuerySafety s) =
     (startsWith (toUpperCase (trim s)) ''SELECT''
      \<and> filter (\<lambda>k. keyword_regex_test k s) DESTRUCTIVE_KEYWORDS = []
      \<and> filter (\<lambda>p. pattern_test p s) DANGEROUS_PATTERNS = []
      \<and> \<not> semicolonCount s > 1 \<and> \<not> (semicolonCount s = 1 \<and> \<not> endsWith (trim s) '';''))"
  by (simp add: checkQuerySafety_def check_select_def check_keywords_def check_patterns_def
      check_semicolons_def fold_block_safe Let_def)

lemma safe_iff_no_issues: "safe (checkQuerySafety s) = (issues (checkQuerySafety s) = [])"
  unfolding issues_checkQuerySafety safe_checkQuerySafety by auto

lemma warnings_checkQuerySafety:
  "warnings (checkQuerySafety s) =
     (if includes_str (toUpperCase (trim s)) ''SELECT *''
      then [''Using SELECT * - consider specifying columns''] else [])
     @ (if \<not> includes_str (toUpperCase (trim s)) ''LIMIT'' \<and> \<not> includes_str (toUpperCase (trim s)) ''TOP''
        then [''No LIMIT clause - query might return many rows''] else [])"
  by (simp add: checkQuerySafety_def check_select_def check_keywords_def check_patterns_def
      check_semicolons_def check_warnings_def fold_block_warnings Let_def)

lemma keyword_issue_inject [simp]: "keyword_issue a = keyword_issue b \<longleftrightarrow> a = b"
  by (simp add: keyword_issue_def)

lemma pattern_issue_inject [simp]: "pattern_issue p = pattern_issue q \<longleftrightarrow> p = q"
  by (cases p; cases q; simp add: pattern_issue_def)

lemma keyword_issue_other [simp]:
  "keyword_issue k \<noteq> pattern_issue p"
  "keyword_issue k \<noteq> ''Query must be a SELECT statement''"
  "keyword_issue k \<noteq> ''Multiple statements detected (SQL injection risk)''"
  "keyword_issue k \<noteq> ''Semicolon in middle of query (SQL injection risk)''"
  by (simp_all add: keyword_issue_def pattern_issue_def)

lemma pattern_issue_other [simp]:
  "pattern_issue p \<noteq> keyword_issue k"
  "pattern_issue p \<noteq> ''Query must be a SELECT statement''"
  "pattern_issue p \<noteq> ''Multiple statements detected (SQL injection risk)''"
  "pattern_issue p \<noteq> ''Semicolon in middle of query (SQL injection risk)''"
  by (simp_all add: keyword_issue_def pattern_issue_def)

lemmas issue_other_sym [simp] = keyword_issue_other(2-4) [symmetric] pattern_issue_other(2-4) [symmetric]

lemma distinct_DESTRUCTIVE_KEYWORDS: "distinct DESTRUCTIVE_KEYWORDS"
  by (simp add: DESTRUCTIVE_KEYWORDS_def)

lemma distinct_DANGEROUS_PATTERNS: "distinct DANGEROUS_PATTERNS"
  by (simp add: DANGEROUS_PATTERNS_def)

lemma all_patterns_listed: "p \<in> set DANGEROUS_PATTERNS"
  by (cases p) (simp_all add: DANGEROUS_PATTERNS_def)

lemma keyword_issue_mem:
  "keyword_issue k \<in> set (issues (checkQuerySafety s)) \<longleftrightarrow>
     k \<in> set DESTRUCTIVE_KEYWORDS \<and> keyword_regex_test k s"
  unfolding issues_checkQuerySafety by (auto simp: image_iff)

lemma pattern_issue_mem:
  "pattern_issue p \<in> set (issues (checkQuerySafety s)) \<longleftrightarrow> pattern_test p s"
  unfolding issues_checkQuerySafety using all_patterns_listed[of p] by (auto simp: image_iff)

lemma distinct_issues: "distinct (issues (checkQuerySafety s))"
proof -
  have k: "distinct (map keyword_issue (filter (\<lambda>k. keyword_regex_test k s) DESTRUCTIVE_KEYWORDS))"
    by (simp add: distinct_map distinct_DESTRUCTIVE_KEYWORDS inj_on_def)
  have p: "distinct (map pattern_issue (filter (\<lambda>p. pattern_test p s) DANGEROUS_PATTERNS))"
    by (simp add: distinct_map distinct_DANGEROUS_PATTERNS inj_on_def)
  show ?thesis
    unfolding issues_checkQuerySafety using k p by (auto simp: image_iff)
qed

lemma destructive_keyword_shape:
  assumes "k \<in> set DESTRUCTIVE_KEYWORDS"
  shows "k \<noteq> []" "list_all is_word_char k" "toUpperCase k = k"
  using assms by (auto simp: DESTRUCTIVE_KEYWORDS_def toUpperCase_def toUpperChar_ascii is_word_char_ascii)

lemma unsafe_if_keyword:
  "k \<in> set DESTRUCTIVE_KEYWORDS \<Longrightarrow> keyword_regex_test k s \<Longrightarrow> \<not> safe (checkQuerySafety s)"
  by (auto simp: safe_checkQuerySafety filter_empty_conv)

lemma unsafe_if_pattern: "pattern_test p s \<Longrightarrow> \<not> safe (checkQuerySafety s)"
  using all_patterns_listed[of p] by (auto simp: safe_checkQuerySafety filter_empty_conv)

section \<open>The generation loop\<close>

declare generation_loop.simps [simp del]

lemma safe_safetyCheckNode [simp]:
  "safe (safetyCheckNode sql) = safe (checkQuerySafety sql)"
  "issues (safetyCheckNode sql) = issues (checkQuerySafety sql)"
  "warnings (safetyCheckNode sql) = warnings (checkQuerySafety sql)"
  by (simp_all add: safetyCheckNode_def Let_def)

lemma generation_loop_stop:
  "\<not> attempt st < retries \<Longrightarrow> generation_loop P question sch retries st = Inr st"
  by (subst generation_loop.simps) simp

lemma generation_loop_fail:
  assumes "attempt st < retries"
    and "generateQuery P (attempt st + 1) question sch (previousQuery st) (safetyFeedback st)
         = GenerationError err"
  shows "generation_loop P question sch retries st =
     Inl (GenerationFailure err (trace st @ [T_query_generation_failed (attempt st + 1) err]),
          calls st @ [GenerateQuery (attempt st + 1) question sch (previousQuery st) (safetyFeedback st)])"
  using assms by (subst generation_loop.simps) (simp add: Let_def)

lemma generation_loop_safe:
  assumes "attempt st < retries"
    and "generateQuery P (attempt st + 1) question sch (previousQuery st) (safetyFeedback st)
         = Generated sql raw"
    and "safe (checkQuerySafety sql)"
  shows "generation_loop P question sch retries st =
     Inr (st\<lparr>attempt := attempt st + 1, safeQuery := Some sql,
             safetyResult := Some (safetyCheckNode sql),
             trace := trace st @ [T_query_generation (attempt st + 1) sql,
                                  T_safety_check (attempt st + 1) True
                                    (issues (checkQuerySafety sql)) (warnings (checkQuerySafety sql))],
             calls := calls st @ [GenerateQuery (attempt st + 1) question sch (previousQuery st)
                                    (safetyFeedback st), SafetyCheck sql]\<rparr>)"
  using assms by (subst generation_loop.simps) (simp add: Let_def)

lemma generation_loop_retry:
  assumes "attempt st < retries"
    and "generateQuery P (attempt st + 1) question sch (previousQuery st) (safetyFeedback st)
         = Generated sql raw"
    and "\<not> safe (checkQuerySafety sql)"
  shows "generation_loop P question sch retries st =
     generation_loop P question sch retries
       (st\<lparr>attempt := attempt st + 1, previousQuery := Some sql,
           safetyFeedback := Some (join ''; '' (issues (checkQuerySafety sql))),
           safetyResult := Some (safetyCheckNode sql),
           trace := trace st @ [T_query_generation (attempt st + 1) sql,
                                T_safety_check (attempt st + 1) False
                                  (issues (checkQuerySafety sql)) (warnings (checkQuerySafety sql))],
           calls := calls st @ [GenerateQuery (attempt st + 1) question sch (previousQuery st)
                                  (safetyFeedback st), SafetyCheck sql]\<rparr>)"
  using assms by (subst generation_loop.simps) (simp add: Let_def)

text \<open>An induction rule that follows the four ways through one round of the loop.\<close>

lemma generation_loop_cases_induct [case_names stop fail accept retry]:
  assumes stop: "\<And>st. \<not> attempt st < retries \<Longrightarrow> Q st"
    and fail: "\<And>st err. attempt st < retries \<Longrightarrow>
        generateQuery P (attempt st + 1) question sch (previousQuery st) (safetyFeedback st)
          = GenerationError err \<Longrightarrow> Q st"
    and accept: "\<And>st sql raw. attempt st < retries \<Longrightarrow>
        generateQuery P (attempt st + 1) question sch (previousQuery st) (safetyFeedback st)
          = Generated sql raw \<Longrightarrow> safe (checkQuerySafety sql) \<Longrightarrow> Q st"
    and retry: "\<And>st sql raw. attempt st < retries \<Longrightarrow>
        generateQuery P (attempt st + 1) question sch (previousQuery st) (safetyFeedback st)
          = Generated sql raw \<Longrightarrow> \<not> safe (checkQuerySafety sql) \<Longrightarrow>
        Q (st\<lparr>attempt := attempt st + 1, previousQuery := Some sql,
           safetyFeedback := Some (join ''; '' (issues (checkQuerySafety sql))),
           safetyResult := Some (safetyCheckNode sql),
           trace := trace st @ [T_query_generation (attempt st + 1) sql,
                                T_safety_check (attempt st + 1) False
                                  (issues (checkQuerySafety sql)) (warnings (checkQuerySafety sql))],
           calls := calls st @ [GenerateQuery (attempt st + 1) question sch (previousQuery st)
                                  (safetyFeedback st), SafetyCheck sql]\<rparr>) \<Longrightarrow> Q st"
  shows "Q st"
proof (induction "nat (retries - attempt st)" arbitrary: st rule: less_induct)
  case less
  show ?case
  proof (cases "attempt st < retries")
    case False
    then show ?thesis by (rule stop)
  next
    case True
    show ?thesis
    proof (cases "generateQuery P (attempt st + 1) question sch (previousQuery st) (safetyFeedback st)")
      case (GenerationError err)
      then show ?thesis using True fail by blast
    next
      case (Generated sql raw)
      show ?thesis
      proof (cases "safe (checkQuerySafety sql)")
        case True
        then show ?thesis using \<open>attempt st < retries\<close> Generated accept by blast
      next
        case False
        show ?thesis
        proof (rule retry[OF \<open>attempt st < retries\<close> Generated False])
          show "Q (st\<lparr>attempt := attempt st + 1, previousQuery := Some sql,
           safetyFeedback := Some (join ''; '' (issues (checkQuerySafety sql))),
           safetyResult := Some (safetyCheckNode sql),
           trace := trace st @ [T_query_generation (attempt st + 1) sql,
                                T_safety_check (attempt st + 1) False
                                  (issues (checkQuerySafety sql)) (warnings (checkQuerySafety sql))],
           calls := calls st @ [GenerateQuery (attempt st + 1) question sch (previousQuery st)
                                  (safetyFeedback st), SafetyCheck sql]\<rparr>)"
            using \<open>attempt st < retries\<close> by (intro less) simp
        qed
      qed
    qed
  qed
qed

text \<open>The calls of the loop: the calls made before, then generation calls and safety checks.\<close>

lemma loop_calls_extend:
  "\<exists>new. loop_calls (generation_loop P question sch retries st) = calls st @ new
     \<and> (\<forall>c \<in> set new. \<not> is_execution c)"
proof (induction st rule: generation_loop_cases_induct[where P = P and question = question and sch = sch and retries = retries])
  case (stop st)
  then show ?case by (simp add: generation_loop_stop)
next
  case (fail st err)
  then show ?case by (simp add: generation_loop_fail)
next
  case (accept st sql raw)
  then show ?case by (simp add: generation_loop_safe)
next
  case (retry st sql raw)
  then show ?case by (auto simp: generation_loop_retry)
qed

lemma loop_returns_generation_failure:
  "generation_loop P question sch retries st = Inl (r, cs) \<Longrightarrow> \<exists>err tr. r = GenerationFailure err tr"
proof (induction st rule: generation_loop_cases_induct[where P = P and question = question and sch = sch and retries = retries])
  case (stop st)
  then show ?case by (simp add: generation_loop_stop)
next
  case (fail st err)
  then show ?case by (auto simp: generation_loop_fail)
next
  case (accept st sql raw)
  then show ?case by (simp add: generation_loop_safe)
next
  case (retry st sql raw)
  then show ?case by (simp add: generation_loop_retry)
qed

text \<open>The accepted query of a state: checked in this run and found safe.\<close>

lemma loop_accepts_checked:
  assumes "generation_loop P question sch retries st = Inr st'" "safeQuery st = None"
  shows "safeQuery st' = None \<or>
     (\<exists>q. safeQuery st' = Some q \<and> safe (checkQuerySafety q) \<and> SafetyCheck q \<in> set (calls st'))"
  using assms
proof (induction st rule: generation_loop_cases_induct[where P = P and question = question and sch = sch and retries = retries])
  case (stop st)
  then show ?case by (simp add: generation_loop_stop)
next
  case (fail st err)
  then show ?case by (simp add: generation_loop_fail)
next
  case (accept st sql raw)
  then show ?case by (auto simp: generation_loop_safe)
next
  case (retry st sql raw)
  then show ?case by (simp add: generation_loop_retry)
qed


text \<open>When every generation call of the loop is answered with an unsafe text.\<close>

lemma loop_all_unsafe:
  assumes "\<forall>c \<in> set (loop_calls (generation_loop P question sch retries st)). answered_unsafe P c"
    and "attempt st < retries"
  shows "\<exists>st' prev fb sql raw pre.
      generation_loop P question sch retries st = Inr st'
      \<and> attempt st' = retries \<and> safeQuery st' = safeQuery st
      \<and> generateQuery P retries question sch prev fb = Generated sql raw
      \<and> safetyResult st' = Some (safetyCheckNode sql)
      \<and> calls st' = pre @ [GenerateQuery retries question sch prev fb, SafetyCheck sql]"
  using assms
proof (induction st rule: generation_loop_cases_induct[where P = P and question = question and sch = sch and retries = retries])
  case (stop st)
  then show ?case by simp
next
  case (fail st err)
  then show ?case by (simp add: generation_loop_fail)
next
  case (accept st sql raw)
  then show ?case by (simp add: generation_loop_safe)
next
  case (retry st sql raw)
  let ?st = "st\<lparr>attempt := attempt st + 1, previousQuery := Some sql,
           safetyFeedback := Some (join ''; '' (issues (checkQuerySafety sql))),
           safetyResult := Some (safetyCheckNode sql),
           trace := trace st @ [T_query_generation (attempt st + 1) sql,
                                T_safety_check (attempt st + 1) False
                                  (issues (checkQuerySafety sql)) (warnings (checkQuerySafety sql))],
           calls := calls st @ [GenerateQuery (attempt st + 1) question sch (previousQuery st)
                                  (safetyFeedback st), SafetyCheck sql]\<rparr>"
  have eq: "generation_loop P question sch retries st = generation_loop P question sch retries ?st"
    using retry.hyps by (rule generation_loop_retry)
  show ?case
  proof (cases "attempt ?st < retries")
    case True
    then show ?thesis using retry.IH retry.prems(1) unfolding eq by simp
  next
    case False
    then have a: "attempt st + 1 = retries" using retry.hyps(1) by simp
    have "generation_loop P question sch retries st = Inr ?st"
      unfolding eq using False by (rule generation_loop_stop)
    then show ?thesis using a retry.hyps(2) by auto
  qed
qed

text \<open>The feedback of each generation call of the loop comes from the call before it.\<close>

lemma loop_feedback_chain:
  "\<exists>new. loop_calls (generation_loop P question sch retries st) = calls st @ new
     \<and> successively (feedback_follows P) (filter is_generation new)
     \<and> (filter is_generation new = [] \<or>
        hd (filter is_generation new)
          = GenerateQuery (attempt st + 1) question sch (previousQuery st) (safetyFeedback st))"
proof (induction st rule: generation_loop_cases_induct[where P = P and question = question and sch = sch and retries = retries])
  case (stop st)
  then show ?case by (simp add: generation_loop_stop)
next
  case (fail st err)
  then show ?case by (simp add: generation_loop_fail)
next
  case (accept st sql raw)
  then show ?case by (simp add: generation_loop_safe)
next
  case (retry st sql raw)
  let ?g = "GenerateQuery (attempt st + 1) question sch (previousQuery st) (safetyFeedback st)"
  from retry.IH obtain new where new:
    "loop_calls (generation_loop P question sch retries st) = (calls st @ [?g, SafetyCheck sql]) @ new"
    "successively (feedback_follows P) (filter is_generation new)"
    "filter is_generation new = [] \<or> hd (filter is_generation new)
        = GenerateQuery (attempt st + 1 + 1) question sch (Some sql)
            (Some (join ''; '' (issues (checkQuerySafety sql))))"
    using generation_loop_retry[OF retry.hyps] by auto
  have "successively (feedback_follows P) (?g # filter is_generation new)"
  proof (cases "filter is_generation new")
    case Nil
    then show ?thesis by simp
  next
    case (Cons c cs)
    then have "c = GenerateQuery (attempt st + 1 + 1) question sch (Some sql)
            (Some (join ''; '' (issues (checkQuerySafety sql))))" using new(3) by simp
    then have "feedback_follows P ?g c" using retry.hyps(2,3) by simp
    then show ?thesis using new(2) Cons by simp
  qed
  then have "loop_calls (generation_loop P question sch retries st) = calls st @ ([?g, SafetyCheck sql] @ new)
     \<and> successively (feedback_follows P) (filter is_generation ([?g, SafetyCheck sql] @ new))
     \<and> (filter is_generation ([?g, SafetyCheck sql] @ new) = [] \<or>
        hd (filter is_generation ([?g, SafetyCheck sql] @ new)) = ?g)"
    using new(1) by simp
  then show ?case by blast
qed


section \<open>Concrete verdicts and runs\<close>

lemma verdict_select_1:
  "checkQuerySafety ''SELECT 1'' =
     \<lparr>safe = True, issues = [], warnings = [''No LIMIT clause - query might return many rows'']\<rparr>"
  by (simp add: check_eval js_eval)

lemma verdict_drop_table:
  "checkQuerySafety ''DROP TABLE t'' =
     \<lparr>safe = False,
      issues = [''Query must be a SELECT statement'', ''Destructive keyword detected: DROP''],
      warnings = [''No LIMIT clause - query might return many rows'']\<rparr>"
  by (simp add: check_eval js_eval)

lemma execution_select_1:
  "executionNode (pool_query (demo_ports gen)) ''SELECT 1'' 100 =
     Executed \<lparr>rows = [''1''], rowCount = 1, executionTime = ''5ms'', fields_list = None\<rparr>"
  by (simp add: executionNode_def executeQuerySafe_def executeQuery_def demo_ports_def
      remove_trailing_semicolon_def number_toString_def digit_char_def js_eval)

lemmas loop_steps = generation_loop_stop generation_loop_fail generation_loop_safe generation_loop_retry

lemma run_gen_fail:
  "sqlQueryAgent (demo_ports gen_fail) ''how many?'' default_options =
     (GenerationFailure ''quota exceeded''
        [T_schema_extraction, T_query_generation_failed 1 ''quota exceeded''],
      [ExtractSchema, GenerateQuery 1 ''how many?'' [] None None])"
  by (simp add: sqlQueryAgent_def default_options_def demo_ports_def gen_fail_def loop_steps)

lemma run_gen_safe:
  "sqlQueryAgent (demo_ports gen_safe) ''how many?'' default_options =
     (Success ''One row.'' ''SELECT 1'' [''1''] 1 ''5ms'' 1
        [''No LIMIT clause - query might return many rows''] None,
      [ExtractSchema, GenerateQuery 1 ''how many?'' [] None None, SafetyCheck ''SELECT 1'',
       Execution ''SELECT 1'' 100,
       Summarize ''how many?''
         \<lparr>rows = [''1''], rowCount = 1, executionTime = ''5ms'', fields_list = None\<rparr> ''SELECT 1''])"
proof -
  have g: "generateQuery (demo_ports gen_safe) n q s p f = Generated ''SELECT 1'' ''SELECT 1''" for n q s p f
    by (simp add: demo_ports_def gen_safe_def)
  have s: "summarizeResults (demo_ports gen_safe) q d t = Summarized ''One row.''" for q d t
    by (simp add: demo_ports_def)
  have x: "extractSchema (demo_ports gen_safe) = Inr []" by (simp add: demo_ports_def)
  show ?thesis
    by (simp add: sqlQueryAgent_def default_options_def x g s loop_steps verdict_select_1
        execute_and_summarize_def execution_select_1)
qed

lemma run_gen_unsafe:
  "sqlQueryAgent (demo_ports gen_unsafe) ''how many?'' default_options =
     (RefinementExhausted 3
        [''Query must be a SELECT statement'', ''Destructive keyword detected: DROP'']
        [T_schema_extraction,
         T_query_generation 1 ''DROP TABLE t'',
         T_safety_check 1 False
           [''Query must be a SELECT statement'', ''Destructive keyword detected: DROP'']
           [''No LIMIT clause - query might return many rows''],
         T_query_generation 2 ''DROP TABLE t'',
         T_safety_check 2 False
           [''Query must be a SELECT statement'', ''Destructive keyword detected: DROP'']
           [''No LIMIT clause - query might return many rows''],
         T_query_generation 3 ''DROP TABLE t'',
         T_safety_check 3 False
           [''Query must be a SELECT statement'', ''Destructive keyword detected: DROP'']
           [''No LIMIT clause - query might return many rows'']],
      [ExtractSchema,
       GenerateQuery 1 ''how many?'' [] None None, SafetyCheck ''DROP TABLE t'',
       GenerateQuery 2 ''how many?'' [] (Some ''DROP TABLE t'')
         (Some ''Query must be a SELECT statement; Destructive keyword detected: DROP''),
       SafetyCheck ''DROP TABLE t'',
       GenerateQuery 3 ''how many?'' [] (Some ''DROP TABLE t'')
         (Some ''Query must be a SELECT statement; Destructive keyword detected: DROP''),
       SafetyCheck ''DROP TABLE t''])"
proof -
  have g: "generateQuery (demo_ports gen_unsafe) n q s p f = Generated ''DROP TABLE t'' ''DROP TABLE t''" for n q s p f
    by (simp add: demo_ports_def gen_unsafe_def)
  have x: "extractSchema (demo_ports gen_unsafe) = Inr []" by (simp add: demo_ports_def)
  show ?thesis
    by (simp add: sqlQueryAgent_def default_options_def x g loop_steps verdict_drop_table
        no_safe_query_def)
qed

lemma run_gen_third:
  "sqlQueryAgent (demo_ports gen_third) ''how many?'' default_options =
     (Success ''One row.'' ''SELECT 1'' [''1''] 1 ''5ms'' 3
        [''No LIMIT clause - query might return many rows''] None,
      [ExtractSchema,
       GenerateQuery 1 ''how many?'' [] None None, SafetyCheck ''DROP TABLE t'',
       GenerateQuery 2 ''how many?'' [] (Some ''DROP TABLE t'')
         (Some ''Query must be a SELECT statement; Destructive keyword detected: DROP''),
       SafetyCheck ''DROP TABLE t'',
       GenerateQuery 3 ''how many?'' [] (Some ''DROP TABLE t'')
         (Some ''Query must be a SELECT statement; Destructive keyword detected: DROP''),
       SafetyCheck ''SELECT 1'',
       Execution ''SELECT 1'' 100,
       Summarize ''how many?''
         \<lparr>rows = [''1''], rowCount = 1, executionTime = ''5ms'', fields_list = None\<rparr> ''SELECT 1''])"
proof -
  have g: "generateQuery (demo_ports gen_third) n q s p f =
      (if n < 3 then Generated ''DROP TABLE t'' ''DROP TABLE t'' else Generated ''SELECT 1'' ''SELECT 1'')" for n q s p f
    by (simp add: demo_ports_def gen_third_def)
  have s: "summarizeResults (demo_ports gen_third) q d t = Summarized ''One row.''" for q d t
    by (simp add: demo_ports_def)
  have x: "extractSchema (demo_ports gen_third) = Inr []" by (simp add: demo_ports_def)
  show ?thesis
    by (simp add: sqlQueryAgent_def default_options_def x g s loop_steps verdict_select_1
        verdict_drop_table execute_and_summarize_def execution_select_1)
qed


section \<open>The shape of a run\<close>

lemma no_safe_query_shape:
  "snd (no_safe_query st) = calls st" "\<not> carries_outcome (fst (no_safe_query st))"
  "\<not> succeeded (fst (no_safe_query st))" "result_trace (fst (no_safe_query st)) \<noteq> None"
  by (simp_all add: no_safe_query_def caught_def split: option.splits)

lemma execute_and_summarize_calls:
  "\<exists>more. snd (execute_and_summarize P question n dbg st q) = calls st @ Execution q n # more
      \<and> (\<forall>c \<in> set more. \<not> is_execution c \<and> \<not> is_generation c)"
  by (simp add: execute_and_summarize_def Let_def caught_def
      split: execution_result.splits summary_result.splits option.splits)

lemma execute_and_summarize_trace:
  "(result_trace (fst (execute_and_summarize P question n dbg st q)) = None)
     = (succeeded (fst (execute_and_summarize P question n dbg st q)) \<and> \<not> dbg)"
  by (simp add: execute_and_summarize_def Let_def caught_def
      split: execution_result.splits summary_result.splits option.splits)

lemma sqlQueryAgent_cases:
  obtains (schema_error) msg where "extractSchema P = Inl msg"
      "sqlQueryAgent P question opts = (caught (Thrown msg) [], [ExtractSchema])"
  | (returned) sch r cs where "extractSchema P = Inr sch"
      "generation_loop P question sch (case maxRetries opts of None \<Rightarrow> 3 | Some n \<Rightarrow> n) initial_state
         = Inl (r, cs)"
      "sqlQueryAgent P question opts = (r, cs)"
  | (no_safe) sch st where "extractSchema P = Inr sch"
      "generation_loop P question sch (case maxRetries opts of None \<Rightarrow> 3 | Some n \<Rightarrow> n) initial_state
         = Inr st"
      "safeQuery st = None \<or> safeQuery st = Some []"
      "sqlQueryAgent P question opts = no_safe_query st"
  | (accepted) sch st q where "extractSchema P = Inr sch"
      "generation_loop P question sch (case maxRetries opts of None \<Rightarrow> 3 | Some n \<Rightarrow> n) initial_state
         = Inr st"
      "safeQuery st = Some q" "q \<noteq> []"
      "sqlQueryAgent P question opts =
         execute_and_summarize P question (case maxRows opts of None \<Rightarrow> 100 | Some n \<Rightarrow> n)
           (case debug opts of None \<Rightarrow> False | Some b \<Rightarrow> b) st q"
proof (cases "extractSchema P")
  case (Inl msg)
  then show ?thesis using schema_error by (simp add: sqlQueryAgent_def)
next
  case (Inr sch)
  show ?thesis
  proof (cases "generation_loop P question sch (case maxRetries opts of None \<Rightarrow> 3 | Some n \<Rightarrow> n) initial_state")
    case (Inl a)
    then show ?thesis using Inr returned[of sch "fst a" "snd a"]
      by (simp add: sqlQueryAgent_def initial_state_def)
  next
    case st: (Inr st)
    show ?thesis
    proof (cases "safeQuery st")
      case None
      then show ?thesis using Inr st no_safe[of sch st]
        by (simp add: sqlQueryAgent_def initial_state_def)
    next
      case (Some q)
      then show ?thesis using Inr st no_safe[of sch st] accepted[of sch st q]
        by (cases "q = []") (simp_all add: sqlQueryAgent_def initial_state_def)
    qed
  qed
qed

lemma run_shape:
  "\<exists>new tail. snd (sqlQueryAgent P question opts) = ExtractSchema # new @ tail
     \<and> (\<forall>c \<in> set new. \<not> is_execution c)
     \<and> (tail = [] \<and> \<not> carries_outcome (fst (sqlQueryAgent P question opts))
        \<or> (\<exists>q n more. tail = Execution q n # more \<and> (\<forall>c \<in> set more. \<not> is_execution c)
              \<and> safe (checkQuerySafety q) \<and> SafetyCheck q \<in> set new))"
proof (cases P question opts rule: sqlQueryAgent_cases)
  case (schema_error msg)
  then have "snd (sqlQueryAgent P question opts) = ExtractSchema # [] @ []
     \<and> (\<forall>c \<in> set ([]::port_call list). \<not> is_execution c)
     \<and> \<not> carries_outcome (fst (sqlQueryAgent P question opts))"
    by (simp add: caught_def)
  then show ?thesis by blast
next
  case (returned sch r cs)
  obtain new where new: "cs = ExtractSchema # new" "\<forall>c \<in> set new. \<not> is_execution c"
    using loop_calls_extend[of P question sch "case maxRetries opts of None \<Rightarrow> 3 | Some n \<Rightarrow> n" initial_state]
      returned(2) by (auto simp: initial_state_def)
  have "\<not> carries_outcome r" using loop_returns_generation_failure[OF returned(2)] by auto
  then have "snd (sqlQueryAgent P question opts) = ExtractSchema # new @ []
     \<and> (\<forall>c \<in> set new. \<not> is_execution c)
     \<and> \<not> carries_outcome (fst (sqlQueryAgent P question opts))"
    using new returned(3) by simp
  then show ?thesis by blast
next
  case (no_safe sch st)
  obtain new where new: "calls st = ExtractSchema # new" "\<forall>c \<in> set new. \<not> is_execution c"
    using loop_calls_extend[of P question sch "case maxRetries opts of None \<Rightarrow> 3 | Some n \<Rightarrow> n" initial_state]
      no_safe(2) by (auto simp: initial_state_def)
  have "snd (sqlQueryAgent P question opts) = ExtractSchema # new @ []
     \<and> (\<forall>c \<in> set new. \<not> is_execution c)
     \<and> \<not> carries_outcome (fst (sqlQueryAgent P question opts))"
    using new no_safe(4) no_safe_query_shape by simp
  then show ?thesis by blast
next
  case (accepted sch st q)
  obtain new where new: "calls st = ExtractSchema # new" "\<forall>c \<in> set new. \<not> is_execution c"
    using loop_calls_extend[of P question sch "case maxRetries opts of None \<Rightarrow> 3 | Some n \<Rightarrow> n" initial_state]
      accepted(2) by (auto simp: initial_state_def)
  have "safe (checkQuerySafety q) \<and> SafetyCheck q \<in> set (calls st)"
    using loop_accepts_checked[OF accepted(2)] accepted(3) by (simp add: initial_state_def)
  then have chk: "safe (checkQuerySafety q)" "SafetyCheck q \<in> set new" using new(1) by auto
  obtain more where more:
    "snd (sqlQueryAgent P question opts)
       = calls st @ Execution q (case maxRows opts of None \<Rightarrow> 100 | Some n \<Rightarrow> n) # more"
    "\<forall>c \<in> set more. \<not> is_execution c"
    using execute_and_summarize_calls accepted(5) by metis
  have "snd (sqlQueryAgent P question opts)
       = ExtractSchema # new @ (Execution q (case maxRows opts of None \<Rightarrow> 100 | Some n \<Rightarrow> n) # more)"
    using more(1) new(1) by simp
  then show ?thesis using new(2) more(2) chk by blast
qed

section \<open>The claims about the safety checker\<close>

text \<open>
  Claim C2. For every text, \<open>checkQuerySafety\<close> returns \<open>safe = true\<close> exactly when the
  issues it returns are empty; the warning step changes neither the flag nor the issues.
  On \<open>SELECT * FROM users\<close> the verdict is safe, without issues, and its warnings are
  the \<open>SELECT *\<close> advisory and the missing-limit advisory.
\<close>
theorem safe_iff_issues_empty:
  "safe (checkQuerySafety s) = (issues (checkQuerySafety s) = [])
   \<and> safe (check_warnings n r) = safe r
   \<and> issues (check_warnings n r) = issues r
   \<and> checkQuerySafety ''SELECT * FROM users'' =
       \<lparr>safe = True, issues = [],
        warnings = [''Using SELECT * - consider specifying columns'',
                    ''No LIMIT clause - query might return many rows'']\<rparr>"
proof -
  have "checkQuerySafety ''SELECT * FROM users'' =
       \<lparr>safe = True, issues = [],
        warnings = [''Using SELECT * - consider specifying columns'',
                    ''No LIMIT clause - query might return many rows'']\<rparr>"
    by (simp add: check_eval js_eval)
  then show ?thesis using safe_iff_no_issues by simp
qed

theorem safe_iff_issues_empty_witness:
  "\<not> safe (checkQuerySafety ''DELETE FROM users'')
   \<and> issues (checkQuerySafety ''DELETE FROM users'') =
       [''Query must be a SELECT statement'', ''Destructive keyword detected: DELETE'']"
proof -
  have i: "issues (checkQuerySafety ''DELETE FROM users'') =
       [''Query must be a SELECT statement'', ''Destructive keyword detected: DELETE'']"
    by (simp add: check_eval js_eval)
  then show ?thesis using safe_iff_issues_empty [of "''DELETE FROM users''"] by simp
qed

text \<open>
  Claim C3. For each of the eleven destructive keywords: a text with a whole-word
  occurrence of the keyword, in any case of its letters, is unsafe and its issues hold
  the issue naming that keyword; a text without one (a column \<open>updated_at\<close> for
  \<open>UPDATE\<close>) does not get that issue. The issues of a verdict are pairwise different.
\<close>
theorem destructive_keyword_flagged:
  assumes "keyword \<in> set DESTRUCTIVE_KEYWORDS"
  shows "(whole_word_occurrence keyword s \<longrightarrow>
            \<not> safe (checkQuerySafety s)
            \<and> (''Destructive keyword detected: '' @ keyword) \<in> set (issues (checkQuerySafety s)))
         \<and> (\<not> whole_word_occurrence keyword s \<longrightarrow>
            (''Destructive keyword detected: '' @ keyword) \<notin> set (issues (checkQuerySafety s)))
         \<and> distinct (issues (checkQuerySafety s))"
proof -
  have "keyword_regex_test keyword s = whole_word_occurrence keyword s"
    using destructive_keyword_shape[OF assms] by (intro keyword_regex_test_iff)
  then show ?thesis
    using keyword_issue_mem[of keyword s] unsafe_if_keyword[of keyword s] assms distinct_issues[of s]
    by (auto simp: keyword_issue_def)
qed

theorem destructive_keyword_flagged_witness:
  "''DROP'' \<in> set DESTRUCTIVE_KEYWORDS
   \<and> whole_word_occurrence ''DROP'' ''select 1; Drop table t''
   \<and> \<not> safe (checkQuerySafety ''select 1; Drop table t'')
   \<and> ''Destructive keyword detected: DROP'' \<in> set (issues (checkQuerySafety ''select 1; Drop table t''))
   \<and> ''UPDATE'' \<in> set DESTRUCTIVE_KEYWORDS
   \<and> sublist ''UPDATE'' (toUpperCase ''SELECT updated_at FROM t'')
   \<and> \<not> whole_word_occurrence ''UPDATE'' ''SELECT updated_at FROM t''
   \<and> ''Destructive keyword detected: UPDATE'' \<notin> set (issues (checkQuerySafety ''SELECT updated_at FROM t''))"
proof -
  have d: "''DROP'' \<in> set DESTRUCTIVE_KEYWORDS" and u: "''UPDATE'' \<in> set DESTRUCTIVE_KEYWORDS"
    by (simp_all add: DESTRUCTIVE_KEYWORDS_def)
  have "keyword_regex_test ''DROP'' ''select 1; Drop table t''"
    by (simp add: js_eval)
  then have w: "whole_word_occurrence ''DROP'' ''select 1; Drop table t''"
    using keyword_regex_test_iff destructive_keyword_shape[OF d] by blast
  have "\<not> keyword_regex_test ''UPDATE'' ''SELECT updated_at FROM t''"
    by (simp add: js_eval)
  then have n: "\<not> whole_word_occurrence ''UPDATE'' ''SELECT updated_at FROM t''"
    using keyword_regex_test_iff destructive_keyword_shape[OF u] by blast
  have s: "sublist ''UPDATE'' (toUpperCase ''SELECT updated_at FROM t'')"
    unfolding includes_str_sublist[symmetric] by (simp add: js_eval)
  show ?thesis
    using d u w n s destructive_keyword_flagged [OF d, of "''select 1; Drop table t''"]
      destructive_keyword_flagged [OF u, of "''SELECT updated_at FROM t''"]
    by simp
qed

text \<open>
  Claim C4, as stated, fails for the first rule: a semicolon followed by \<open>GRANT\<close>, one of
  the destructive keywords, does not raise the issue of the stacked-statement pattern,
  whose alternation names seven statement keywords only.
\<close>
theorem stacked_grant_counterexample:
  "semicolon_then_destructive ''SELECT 1; GRANT ALL''
   \<and> pattern_issue MultipleStatements \<notin> set (issues (checkQuerySafety ''SELECT 1; GRANT ALL''))"
proof -
  have "''SELECT 1; GRANT ALL'' = ''SELECT 1'' @ '';'' @ '' '' @ ''GRANT'' @ '' ALL''
        \<and> list_all is_space '' '' \<and> toUpperCase ''GRANT'' \<in> set DESTRUCTIVE_KEYWORDS"
    by (simp add: js_eval)
  then have "semicolon_then_destructive ''SELECT 1; GRANT ALL''"
    unfolding semicolon_then_destructive_def by blast
  moreover have "\<not> pattern_test MultipleStatements ''SELECT 1; GRANT ALL''"
    by (simp add: js_eval)
  ultimately show ?thesis using pattern_issue_mem by blast
qed

text \<open>
  Claim C4, amended. Each of the five dangerous patterns raises its own issue exactly
  when the text holds what it looks for, whatever the other rules find: a semicolon
  followed, after white space (the no-break space included) or none, by one of \<open>DROP\<close>, \<open>DELETE\<close>, \<open>UPDATE\<close>, \<open>INSERT\<close>,
  \<open>TRUNCATE\<close>, \<open>ALTER\<close>, \<open>CREATE\<close> in any case; two hyphens; a slash and a star; \<open>xp_\<close> in
  any case; \<open>sp_\<close> in any case. A text that holds one of them is unsafe, and the issues
  of a verdict are pairwise different.
\<close>

theorem dangerous_patterns_flagged:
  "(pattern_issue p \<in> set (issues (checkQuerySafety s))) = pattern_present p s
   \<and> (pattern_present p s \<longrightarrow> \<not> safe (checkQuerySafety s))
   \<and> distinct (issues (checkQuerySafety s))"
  using pattern_issue_mem[of p s] pattern_test_iff[of p s] unsafe_if_pattern[of p s] distinct_issues[of s]
  by simp

theorem dangerous_patterns_flagged_witness:
  "pattern_present MultipleStatements ''SELECT 1;  drop -- /* xp_ sp_''
   \<and> pattern_present SqlComment ''SELECT 1;  drop -- /* xp_ sp_''
   \<and> pattern_present BlockComment ''SELECT 1;  drop -- /* xp_ sp_''
   \<and> pattern_present ExtendedProc ''SELECT 1;  drop -- /* xp_ sp_''
   \<and> pattern_present SystemProc ''SELECT 1;  drop -- /* xp_ sp_''
   \<and> \<not> safe (checkQuerySafety ''SELECT 1;  drop -- /* xp_ sp_'')
   \<and> set (map pattern_issue DANGEROUS_PATTERNS) \<subseteq> set (issues (checkQuerySafety ''SELECT 1;  drop -- /* xp_ sp_''))
   \<and> pattern_present MultipleStatements (''SELECT 1;'' @ [CHR 0xA0] @ ''DROP TABLE t'')
   \<and> pattern_issue MultipleStatements
        \<in> set (issues (checkQuerySafety (''SELECT 1;'' @ [CHR 0xA0] @ ''DROP TABLE t'')))"
proof -
  let ?s = "''SELECT 1;  drop -- /* xp_ sp_''"
  let ?n = "''SELECT 1;'' @ [CHR 0xA0] @ ''DROP TABLE t''"
  have "pattern_test MultipleStatements ?n"
    by (simp add: js_eval no_break_space)
  then have n: "pattern_present MultipleStatements ?n"
    using pattern_test_iff by blast
  have t: "pattern_test MultipleStatements ?s" "pattern_test SqlComment ?s" "pattern_test BlockComment ?s"
    "pattern_test ExtendedProc ?s" "pattern_test SystemProc ?s"
    by (simp_all add: js_eval)
  then have p: "pattern_present MultipleStatements ?s" "pattern_present SqlComment ?s"
    "pattern_present BlockComment ?s" "pattern_present ExtendedProc ?s" "pattern_present SystemProc ?s"
    using pattern_test_iff by blast+
  show ?thesis
    using p n dangerous_patterns_flagged [of MultipleStatements ?s]
      dangerous_patterns_flagged [of MultipleStatements ?n]
      dangerous_patterns_flagged [of SqlComment ?s] dangerous_patterns_flagged [of BlockComment ?s]
      dangerous_patterns_flagged [of ExtendedProc ?s] dangerous_patterns_flagged [of SystemProc ?s]
    by (simp add: DANGEROUS_PATTERNS_def)
qed

text \<open>
  Claim C9. The issue of the \<open>sp_\<close> pattern (of the \<open>xp_\<close> pattern) is raised exactly when
  the text contains \<open>sp_\<close> (\<open>xp_\<close>) somewhere, in any case of its letters, also inside a
  longer identifier; such a text is unsafe. The query \<open>SELECT resp_time FROM t\<close> is
  rejected with that issue alone.
\<close>
theorem procedure_prefix_is_substring_match:
  "(''Dangerous pattern detected: /sp_/i'' \<in> set (issues (checkQuerySafety s))) = contains_ci ''sp_'' s
   \<and> (''Dangerous pattern detected: /xp_/i'' \<in> set (issues (checkQuerySafety s))) = contains_ci ''xp_'' s
   \<and> (contains_ci ''sp_'' s \<or> contains_ci ''xp_'' s \<longrightarrow> \<not> safe (checkQuerySafety s))
   \<and> checkQuerySafety ''SELECT resp_time FROM t'' =
       \<lparr>safe = False, issues = [''Dangerous pattern detected: /sp_/i''],
        warnings = [''No LIMIT clause - query might return many rows'']\<rparr>"
proof -
  have e: "checkQuerySafety ''SELECT resp_time FROM t'' =
       \<lparr>safe = False, issues = [''Dangerous pattern detected: /sp_/i''],
        warnings = [''No LIMIT clause - query might return many rows'']\<rparr>"
    by (simp add: check_eval js_eval)
  have s: "pattern_issue SystemProc = ''Dangerous pattern detected: /sp_/i''"
    and x: "pattern_issue ExtendedProc = ''Dangerous pattern detected: /xp_/i''"
    by (simp_all add: pattern_issue_def)
  show ?thesis
    using e pattern_issue_mem[of SystemProc s] pattern_issue_mem[of ExtendedProc s]
      unsafe_if_pattern[of SystemProc s] unsafe_if_pattern[of ExtendedProc s]
    unfolding s x by (auto simp: ci_regex_test_iff)
qed

theorem procedure_prefix_is_substring_match_witness:
  "contains_ci ''sp_'' ''select Resp_Time from t''
   \<and> \<not> safe (checkQuerySafety ''select Resp_Time from t'')
   \<and> ''Dangerous pattern detected: /sp_/i'' \<in> set (issues (checkQuerySafety ''select Resp_Time from t''))"
proof -
  have "ci_regex_test ''sp_'' ''select Resp_Time from t''" by (simp add: js_eval)
  then have "contains_ci ''sp_'' ''select Resp_Time from t''" using ci_regex_test_iff by blast
  then show ?thesis
    using procedure_prefix_is_substring_match [of "''select Resp_Time from t''"] by simp
qed


section \<open>The first round of the loop, and the text the executor sends\<close>

lemma initial_feedback_chain:
  "\<exists>new. loop_calls (generation_loop P question sch retries initial_state) = ExtractSchema # new
     \<and> successively (feedback_follows P) (filter is_generation new)
     \<and> (filter is_generation new = [] \<or>
        hd (filter is_generation new) = GenerateQuery 1 question sch None None)"
  using loop_feedback_chain[of P question sch retries initial_state]
  by (simp add: initial_state_def)


lemma safe_nonempty: "safe (checkQuerySafety q) \<Longrightarrow> q \<noteq> []"
  by (auto simp: safe_checkQuerySafety trim_def toUpperCase_def)

lemma executeQuerySafe_text:
  "executeQuerySafe pool s n =
     executeQuery pool
       (if sublist ''LIMIT'' (toUpperCase (trim s)) then trim s
        else remove_trailing_semicolon (trim s) @ '' LIMIT '' @ number_toString n)"
  by (simp add: executeQuerySafe_def Let_def includes_str_sublist)


section \<open>The claims about the orchestrator\<close>

text \<open>
  Claim C1. In every run of \<open>sqlQueryAgent\<close> the Execution Port is called at most once,
  and only with a text that was given to the safety check earlier in the same run and
  that \<open>checkQuerySafety\<close> finds safe. When no text checked in the run is safe, the
  Execution Port is not called and the result carries no execution outcome; a result
  that carries one comes from a call of the Execution Port.
\<close>
theorem execution_only_after_safe_verdict:
  "length (filter is_execution (snd (sqlQueryAgent P question opts))) \<le> 1
   \<and> (\<forall>q n. Execution q n \<in> set (snd (sqlQueryAgent P question opts)) \<longrightarrow>
         safe (checkQuerySafety q)
         \<and> (\<exists>pre post. snd (sqlQueryAgent P question opts) = pre @ Execution q n # post
               \<and> SafetyCheck q \<in> set pre))
   \<and> ((\<forall>q. SafetyCheck q \<in> set (snd (sqlQueryAgent P question opts)) \<longrightarrow> \<not> safe (checkQuerySafety q)) \<longrightarrow>
         filter is_execution (snd (sqlQueryAgent P question opts)) = []
         \<and> \<not> carries_outcome (fst (sqlQueryAgent P question opts)))
   \<and> (carries_outcome (fst (sqlQueryAgent P question opts)) \<longrightarrow>
         filter is_execution (snd (sqlQueryAgent P question opts)) \<noteq> [])"
proof -
  define r where "r = fst (sqlQueryAgent P question opts)"
  define cs where "cs = snd (sqlQueryAgent P question opts)"
  have "\<exists>new tail. cs = ExtractSchema # new @ tail
     \<and> (\<forall>c \<in> set new. \<not> is_execution c)
     \<and> (tail = [] \<and> \<not> carries_outcome r
        \<or> (\<exists>q n more. tail = Execution q n # more \<and> (\<forall>c \<in> set more. \<not> is_execution c)
              \<and> safe (checkQuerySafety q) \<and> SafetyCheck q \<in> set new))"
    unfolding r_def cs_def by (rule run_shape)
  then obtain new tail where sh: "cs = ExtractSchema # new @ tail"
    and nx: "\<forall>c \<in> set new. \<not> is_execution c"
    and tl: "tail = [] \<and> \<not> carries_outcome r
        \<or> (\<exists>q n more. tail = Execution q n # more \<and> (\<forall>c \<in> set more. \<not> is_execution c)
              \<and> safe (checkQuerySafety q) \<and> SafetyCheck q \<in> set new)"
    by (elim exE conjE)
  have fn: "filter is_execution new = []" using nx by (simp add: filter_empty_conv)
  have "length (filter is_execution cs) \<le> 1
   \<and> (\<forall>q n. Execution q n \<in> set cs \<longrightarrow>
         safe (checkQuerySafety q)
         \<and> (\<exists>pre post. cs = pre @ Execution q n # post \<and> SafetyCheck q \<in> set pre))
   \<and> ((\<forall>q. SafetyCheck q \<in> set cs \<longrightarrow> \<not> safe (checkQuerySafety q)) \<longrightarrow>
         filter is_execution cs = [] \<and> \<not> carries_outcome r)
   \<and> (carries_outcome r \<longrightarrow> filter is_execution cs \<noteq> [])"
    using tl
  proof
    assume t: "tail = [] \<and> \<not> carries_outcome r"
    then have f: "filter is_execution cs = []" using sh fn by simp
    have "Execution q n \<notin> set cs" for q n
    proof
      assume "Execution q n \<in> set cs"
      then have "Execution q n \<in> set (filter is_execution cs)" by simp
      then show False using f by simp
    qed
    then show ?thesis using t f by simp
  next
    assume "\<exists>q n more. tail = Execution q n # more \<and> (\<forall>c \<in> set more. \<not> is_execution c)
              \<and> safe (checkQuerySafety q) \<and> SafetyCheck q \<in> set new"
    then obtain q n more where t: "tail = Execution q n # more"
      and mx: "\<forall>c \<in> set more. \<not> is_execution c"
      and sq: "safe (checkQuerySafety q)" and cq: "SafetyCheck q \<in> set new"
      by (elim exE conjE)
    have fm: "filter is_execution more = []" using mx by (simp add: filter_empty_conv)
    have f: "filter is_execution cs = [Execution q n]"
      using sh t fn fm by simp
    have only: "q' = q \<and> n' = n" if "Execution q' n' \<in> set cs" for q' n'
    proof -
      have "Execution q' n' \<in> set (filter is_execution cs)" using that by simp
      then show ?thesis unfolding f by simp
    qed
    have split: "cs = (ExtractSchema # new) @ Execution q n # more"
      and before: "SafetyCheck q \<in> set (ExtractSchema # new)"
      using sh t cq by simp_all
    have ex: "\<exists>pre post. cs = pre @ Execution q n # post \<and> SafetyCheck q \<in> set pre"
      using split before by (intro exI[of _ "ExtractSchema # new"] exI[of _ more]) simp
    have p2: "\<forall>q' n'. Execution q' n' \<in> set cs \<longrightarrow>
         safe (checkQuerySafety q')
         \<and> (\<exists>pre post. cs = pre @ Execution q' n' # post \<and> SafetyCheck q' \<in> set pre)"
    proof (intro allI impI)
      fix q' n' assume "Execution q' n' \<in> set cs"
      then have "q' = q" "n' = n" using only by simp_all
      then show "safe (checkQuerySafety q')
         \<and> (\<exists>pre post. cs = pre @ Execution q' n' # post \<and> SafetyCheck q' \<in> set pre)"
        using sq ex by simp
    qed
    have "SafetyCheck q \<in> set cs" using sh cq by simp
    then have p3: "\<not> (\<forall>q. SafetyCheck q \<in> set cs \<longrightarrow> \<not> safe (checkQuerySafety q))"
      using sq by blast
    show ?thesis using f p2 p3 by simp
  qed
  then show ?thesis unfolding r_def cs_def .
qed

theorem execution_only_after_safe_verdict_witness:
  "Execution ''SELECT 1'' 100 \<in> set (snd (sqlQueryAgent (demo_ports gen_safe) ''how many?'' default_options))
   \<and> safe (checkQuerySafety ''SELECT 1'')
   \<and> carries_outcome (fst (sqlQueryAgent (demo_ports gen_safe) ''how many?'' default_options))
   \<and> \<not> (\<exists>q. SafetyCheck q \<in> set (snd (sqlQueryAgent (demo_ports gen_unsafe) ''how many?'' default_options))
            \<and> safe (checkQuerySafety q))
   \<and> filter is_execution (snd (sqlQueryAgent (demo_ports gen_unsafe) ''how many?'' default_options)) = []
   \<and> \<not> carries_outcome (fst (sqlQueryAgent (demo_ports gen_unsafe) ''how many?'' default_options))"
proof -
  have a: "Execution ''SELECT 1'' 100 \<in> set (snd (sqlQueryAgent (demo_ports gen_safe) ''how many?'' default_options))"
    and c: "carries_outcome (fst (sqlQueryAgent (demo_ports gen_safe) ''how many?'' default_options))"
    by (simp_all add: run_gen_safe)
  have b: "\<not> (\<exists>q. SafetyCheck q \<in> set (snd (sqlQueryAgent (demo_ports gen_unsafe) ''how many?'' default_options))
            \<and> safe (checkQuerySafety q))"
    by (auto simp: run_gen_unsafe verdict_drop_table)
  show ?thesis
    using a b c execution_only_after_safe_verdict [of "demo_ports gen_safe" "''how many?''" default_options]
      execution_only_after_safe_verdict [of "demo_ports gen_unsafe" "''how many?''" default_options]
    by blast
qed

text \<open>
  Claim C10. With a retry budget of zero or less and a schema extracted, no generation
  call is made; reading \<open>issues\<close> of the null verdict throws, the error is caught, and the
  result is the generic failure \<open>Unexpected error in agent execution\<close> with the trace,
  not the refinement-exhausted failure.
\<close>
theorem no_retry_budget:
  assumes "extractSchema P = Inr sch" and "maxRetries opts = Some n" and "n \<le> 0"
  shows "sqlQueryAgent P question opts =
           (UnexpectedError (NullPropertyRead ''issues'')
              [T_schema_extraction, T_error (NullPropertyRead ''issues'')],
            [ExtractSchema])
         \<and> filter is_generation (snd (sqlQueryAgent P question opts)) = []
         \<and> error_reason (fst (sqlQueryAgent P question opts))
             = Some ''Unexpected error in agent execution''
         \<and> error_reason (fst (sqlQueryAgent P question opts))
             \<noteq> error_reason (RefinementExhausted k lastIssues tr)"
proof -
  have "generation_loop P question sch n initial_state = Inr initial_state"
    using assms(3) by (intro generation_loop_stop) (simp add: initial_state_def)
  then have "sqlQueryAgent P question opts =
           (UnexpectedError (NullPropertyRead ''issues'')
              [T_schema_extraction, T_error (NullPropertyRead ''issues'')],
            [ExtractSchema])"
    using assms(1,2) by (simp add: sqlQueryAgent_def initial_state_def no_safe_query_def caught_def)
  then show ?thesis by simp
qed

theorem no_retry_budget_witness:
  "extractSchema (demo_ports gen_safe) = Inr []
   \<and> sqlQueryAgent (demo_ports gen_safe) ''how many?'' \<lparr>maxRetries = Some 0, maxRows = None, debug = None\<rparr> =
           (UnexpectedError (NullPropertyRead ''issues'')
              [T_schema_extraction, T_error (NullPropertyRead ''issues'')],
            [ExtractSchema])"
proof -
  have x: "extractSchema (demo_ports gen_safe) = Inr []" by (simp add: demo_ports_def)
  show ?thesis
    using x no_retry_budget [of "demo_ports gen_safe" "[]" "\<lparr>maxRetries = Some 0, maxRows = None, debug = None\<rparr>" 0 "''how many?''"]
    by simp
qed

text \<open>
  Claim C8, as stated, fails for a failure: with \<open>debug\<close> unset, a run whose generation
  call fails returns the trace.
\<close>
theorem failure_keeps_trace_counterexample:
  "debug default_options \<noteq> Some True
   \<and> \<not> succeeded (fst (sqlQueryAgent (demo_ports gen_fail) ''how many?'' default_options))
   \<and> result_trace (fst (sqlQueryAgent (demo_ports gen_fail) ''how many?'' default_options))
       = Some [T_schema_extraction, T_query_generation_failed 1 ''quota exceeded'']"
proof -
  have "debug default_options \<noteq> Some True" by (simp add: default_options_def)
  then show ?thesis by (simp add: run_gen_fail)
qed

text \<open>
  Claim C8, amended. The result of \<open>sqlQueryAgent\<close> is without a trace exactly when it
  is a success and \<open>debug\<close> is not set: a success carries the trace only when \<open>debug\<close> is
  set, and every failure carries the trace, whatever \<open>debug\<close> is.
\<close>

theorem trace_hidden_only_on_success:
  "(result_trace (fst (sqlQueryAgent P question opts)) = None)
     = (succeeded (fst (sqlQueryAgent P question opts)) \<and> debug opts \<noteq> Some True)"
proof (cases P question opts rule: sqlQueryAgent_cases)
  case (schema_error msg)
  then show ?thesis by (simp add: caught_def)
next
  case (returned sch r cs)
  then show ?thesis using loop_returns_generation_failure[OF returned(2)] by auto
next
  case (no_safe sch st)
  then show ?thesis using no_safe_query_shape by simp
next
  case (accepted sch st q)
  have "(case debug opts of None \<Rightarrow> False | Some b \<Rightarrow> b) = (debug opts = Some True)"
    by (cases "debug opts") auto
  then show ?thesis using accepted(5) execute_and_summarize_trace by simp
qed

theorem trace_hidden_only_on_success_witness:
  "succeeded (fst (sqlQueryAgent (demo_ports gen_safe) ''how many?'' default_options))
   \<and> debug default_options \<noteq> Some True
   \<and> result_trace (fst (sqlQueryAgent (demo_ports gen_safe) ''how many?'' default_options)) = None"
proof -
  have "succeeded (fst (sqlQueryAgent (demo_ports gen_safe) ''how many?'' default_options))"
    by (simp add: run_gen_safe)
  moreover have "debug default_options \<noteq> Some True" by (simp add: default_options_def)
  ultimately show ?thesis
    using trace_hidden_only_on_success [of "demo_ports gen_safe" "''how many?''" default_options]
    by simp
qed

text \<open>
  Claim C5. With a retry budget of at least one, a schema extracted, and every
  generation call of the run answered with a text that \<open>checkQuerySafety\<close> rejects, the
  run ends after the call of attempt \<open>maxRetries\<close> and the check of its text: the result
  is the refinement-exhausted failure with \<open>attempts = maxRetries\<close> and the issues of
  that last verdict, and its reason differs from the reasons of the generation failure,
  of the execution failure and of the generic failure.
\<close>
theorem refinement_exhausted:
  assumes "extractSchema P = Inr sch"
    and "retries = (case maxRetries opts of None \<Rightarrow> 3 | Some n \<Rightarrow> n)"
    and "1 \<le> retries"
    and "\<forall>c \<in> set (snd (sqlQueryAgent P question opts)). answered_unsafe P c"
  shows "\<exists>prev fb sql raw pre tr.
           generateQuery P retries question sch prev fb = Generated sql raw
           \<and> snd (sqlQueryAgent P question opts)
               = pre @ [GenerateQuery retries question sch prev fb, SafetyCheck sql]
           \<and> fst (sqlQueryAgent P question opts)
               = RefinementExhausted retries (issues (checkQuerySafety sql)) tr
           \<and> error_reason (fst (sqlQueryAgent P question opts))
               = Some ''Could not generate a safe query after multiple attempts''
           \<and> error_reason (fst (sqlQueryAgent P question opts))
               \<noteq> error_reason (GenerationFailure details1 tr1)
           \<and> error_reason (fst (sqlQueryAgent P question opts))
               \<noteq> error_reason (ExecutionFailure details2 q2 tr2)
           \<and> error_reason (fst (sqlQueryAgent P question opts))
               \<noteq> error_reason (UnexpectedError details3 tr3)"
proof -
  define R where "R = generation_loop P question sch retries initial_state"
  have pre: "prefix (loop_calls R) (snd (sqlQueryAgent P question opts))"
  proof (cases P question opts rule: sqlQueryAgent_cases)
    case (schema_error msg)
    then show ?thesis using assms(1) by simp
  next
    case (returned sch' r cs)
    then show ?thesis using assms(1,2) by (simp add: R_def)
  next
    case (no_safe sch' st)
    then show ?thesis using assms(1,2) no_safe_query_shape(1) by (simp add: R_def)
  next
    case (accepted sch' st q)
    obtain more where "snd (sqlQueryAgent P question opts)
        = calls st @ Execution q (case maxRows opts of None \<Rightarrow> 100 | Some n \<Rightarrow> n) # more"
      using execute_and_summarize_calls accepted(5) by metis
    then have "prefix (calls st) (snd (sqlQueryAgent P question opts))" by (simp add: prefix_def)
    then show ?thesis using accepted(1,2) assms(1,2) by (simp add: R_def)
  qed
  then have "\<forall>c \<in> set (loop_calls R). answered_unsafe P c"
    using assms(4) set_mono_prefix by blast
  moreover have "attempt initial_state < retries" using assms(3) by (simp add: initial_state_def)
  ultimately obtain st prev fb sql raw pre where st: "R = Inr st" "attempt st = retries"
    "safeQuery st = safeQuery initial_state"
    "generateQuery P retries question sch prev fb = Generated sql raw"
    "safetyResult st = Some (safetyCheckNode sql)"
    "calls st = pre @ [GenerateQuery retries question sch prev fb, SafetyCheck sql]"
    unfolding R_def using loop_all_unsafe[of P question sch retries initial_state] by blast
  have none: "safeQuery st = None" using st(3) by (simp add: initial_state_def)
  have "sqlQueryAgent P question opts = no_safe_query st"
    using assms(1,2) st(1) none by (simp add: sqlQueryAgent_def R_def initial_state_def)
  then have run: "sqlQueryAgent P question opts
      = (RefinementExhausted retries (issues (checkQuerySafety sql)) (trace st), calls st)"
    using st(2,5) by (simp add: no_safe_query_def)
  have "generateQuery P retries question sch prev fb = Generated sql raw
           \<and> snd (sqlQueryAgent P question opts)
               = pre @ [GenerateQuery retries question sch prev fb, SafetyCheck sql]
           \<and> fst (sqlQueryAgent P question opts)
               = RefinementExhausted retries (issues (checkQuerySafety sql)) (trace st)"
    using st(4,6) run by simp
  moreover have "error_reason (fst (sqlQueryAgent P question opts))
               = Some ''Could not generate a safe query after multiple attempts''
           \<and> error_reason (fst (sqlQueryAgent P question opts))
               \<noteq> error_reason (GenerationFailure details1 tr1)
           \<and> error_reason (fst (sqlQueryAgent P question opts))
               \<noteq> error_reason (ExecutionFailure details2 q2 tr2)
           \<and> error_reason (fst (sqlQueryAgent P question opts))
               \<noteq> error_reason (UnexpectedError details3 tr3)"
    using run by simp
  ultimately show ?thesis by blast
qed

theorem refinement_exhausted_witness:
  "extractSchema (demo_ports gen_unsafe) = Inr []
   \<and> (3::int) = (case maxRetries default_options of None \<Rightarrow> 3 | Some n \<Rightarrow> n)
   \<and> list_all (answered_unsafe (demo_ports gen_unsafe))
        (snd (sqlQueryAgent (demo_ports gen_unsafe) ''how many?'' default_options))
   \<and> (\<exists>sql tr. fst (sqlQueryAgent (demo_ports gen_unsafe) ''how many?'' default_options)
               = RefinementExhausted 3 (issues (checkQuerySafety sql)) tr)"
proof -
  have x: "extractSchema (demo_ports gen_unsafe) = Inr []" by (simp add: demo_ports_def)
  have d: "(3::int) = (case maxRetries default_options of None \<Rightarrow> 3 | Some n \<Rightarrow> n)"
    by (simp add: default_options_def)
  have g: "generateQuery (demo_ports gen_unsafe) n q s p f = Generated ''DROP TABLE t'' ''DROP TABLE t''" for n q s p f
    by (simp add: demo_ports_def gen_unsafe_def)
  have u: "list_all (answered_unsafe (demo_ports gen_unsafe))
        (snd (sqlQueryAgent (demo_ports gen_unsafe) ''how many?'' default_options))"
    by (simp add: run_gen_unsafe g verdict_drop_table)
  then have "\<forall>c \<in> set (snd (sqlQueryAgent (demo_ports gen_unsafe) ''how many?'' default_options)).
      answered_unsafe (demo_ports gen_unsafe) c"
    by (simp add: list_all_iff)
  then have "\<exists>sql tr. fst (sqlQueryAgent (demo_ports gen_unsafe) ''how many?'' default_options)
               = RefinementExhausted 3 (issues (checkQuerySafety sql)) tr"
    using refinement_exhausted [OF x d, of "''how many?''"] by fastforce
  then show ?thesis using x d u by simp
qed

text \<open>
  Claim C6. In every run, each generation call after the first follows a generation call
  that was answered with a text the safety check rejected, and it is given that text as
  the previous attempt and the issues of its verdict, joined with \<open>; \<close>, as the feedback
  (the warnings are no part of it); the first generation call has neither. When, with
  \<open>maxRetries = 3\<close>, attempts 1 and 2 are answered with unsafe texts and attempt 3 with a
  safe one, and execution and summary succeed, the result is the success with
  \<open>attempts = 3\<close> and the third call carries the joined issues of the second verdict.
\<close>
theorem feedback_is_joined_issues:
  "successively (feedback_follows P) (filter is_generation (snd (sqlQueryAgent P question opts)))
   \<and> (filter is_generation (snd (sqlQueryAgent P question opts)) = []
      \<or> (\<exists>sch. hd (filter is_generation (snd (sqlQueryAgent P question opts)))
             = GenerateQuery 1 question sch None None))
   \<and> (extractSchema P = Inr sch \<and> maxRetries opts = Some 3
      \<and> (\<forall>prev fb. generateQuery P 1 question sch prev fb = Generated q1 r1)
      \<and> (\<forall>prev fb. generateQuery P 2 question sch prev fb = Generated q2 r2)
      \<and> (\<forall>prev fb. generateQuery P 3 question sch prev fb = Generated q3 r3)
      \<and> \<not> safe (checkQuerySafety q1) \<and> \<not> safe (checkQuerySafety q2) \<and> safe (checkQuerySafety q3)
      \<and> executionNode (pool_query P) q3 (case maxRows opts of None \<Rightarrow> 100 | Some n \<Rightarrow> n) = Executed d
      \<and> summarizeResults P question d q3 = Summarized answer
      \<longrightarrow> (\<exists>tr. fst (sqlQueryAgent P question opts)
                 = Success answer q3 (rows d) (rowCount d) (executionTime d) 3
                     (warnings (checkQuerySafety q3)) tr)
          \<and> filter is_generation (snd (sqlQueryAgent P question opts))
              = [GenerateQuery 1 question sch None None,
                 GenerateQuery 2 question sch (Some q1)
                   (Some (join ''; '' (issues (checkQuerySafety q1)))),
                 GenerateQuery 3 question sch (Some q2)
                   (Some (join ''; '' (issues (checkQuerySafety q2))))])"
proof -
  define cs where "cs = snd (sqlQueryAgent P question opts)"
  have chain: "successively (feedback_follows P) (filter is_generation cs)
     \<and> (filter is_generation cs = []
        \<or> (\<exists>sch. hd (filter is_generation cs) = GenerateQuery 1 question sch None None))"
  proof (cases P question opts rule: sqlQueryAgent_cases)
    case (schema_error msg)
    then show ?thesis by (simp add: cs_def)
  next
    case (returned sch' r cs')
    obtain new where new: "cs' = ExtractSchema # new"
      "successively (feedback_follows P) (filter is_generation new)"
      "filter is_generation new = [] \<or>
        hd (filter is_generation new) = GenerateQuery 1 question sch' None None"
      using initial_feedback_chain[of P question sch' "case maxRetries opts of None \<Rightarrow> 3 | Some n \<Rightarrow> n"]
        returned(2) by auto
    have "filter is_generation cs = filter is_generation new"
      using returned(3) new(1) by (simp add: cs_def)
    then show ?thesis using new(2,3) by auto
  next
    case (no_safe sch' st)
    obtain new where new: "calls st = ExtractSchema # new"
      "successively (feedback_follows P) (filter is_generation new)"
      "filter is_generation new = [] \<or>
        hd (filter is_generation new) = GenerateQuery 1 question sch' None None"
      using initial_feedback_chain[of P question sch' "case maxRetries opts of None \<Rightarrow> 3 | Some n \<Rightarrow> n"]
        no_safe(2) by auto
    have "filter is_generation cs = filter is_generation new"
      using no_safe(4) new(1) no_safe_query_shape(1) by (simp add: cs_def)
    then show ?thesis using new(2,3) by auto
  next
    case (accepted sch' st q)
    obtain new where new: "calls st = ExtractSchema # new"
      "successively (feedback_follows P) (filter is_generation new)"
      "filter is_generation new = [] \<or>
        hd (filter is_generation new) = GenerateQuery 1 question sch' None None"
      using initial_feedback_chain[of P question sch' "case maxRetries opts of None \<Rightarrow> 3 | Some n \<Rightarrow> n"]
        accepted(2) by auto
    obtain more where more: "cs = calls st @ Execution q (case maxRows opts of None \<Rightarrow> 100 | Some n \<Rightarrow> n) # more"
      "\<forall>c \<in> set more. \<not> is_execution c \<and> \<not> is_generation c"
      using execute_and_summarize_calls accepted(5) unfolding cs_def by metis
    have "filter is_generation more = []" using more(2) by (simp add: filter_empty_conv)
    then have "filter is_generation cs = filter is_generation new"
      using more(1) new(1) by simp
    then show ?thesis using new(2,3) by auto
  qed
  have scenario: "(\<exists>tr. fst (sqlQueryAgent P question opts)
                 = Success answer q3 (rows d) (rowCount d) (executionTime d) 3
                     (warnings (checkQuerySafety q3)) tr)
          \<and> filter is_generation cs
              = [GenerateQuery 1 question sch None None,
                 GenerateQuery 2 question sch (Some q1)
                   (Some (join ''; '' (issues (checkQuerySafety q1)))),
                 GenerateQuery 3 question sch (Some q2)
                   (Some (join ''; '' (issues (checkQuerySafety q2))))]"
    if h: "extractSchema P = Inr sch" "maxRetries opts = Some 3"
      "\<forall>prev fb. generateQuery P 1 question sch prev fb = Generated q1 r1"
      "\<forall>prev fb. generateQuery P 2 question sch prev fb = Generated q2 r2"
      "\<forall>prev fb. generateQuery P 3 question sch prev fb = Generated q3 r3"
      "\<not> safe (checkQuerySafety q1)" "\<not> safe (checkQuerySafety q2)" "safe (checkQuerySafety q3)"
      "executionNode (pool_query P) q3 (case maxRows opts of None \<Rightarrow> 100 | Some n \<Rightarrow> n) = Executed d"
      "summarizeResults P question d q3 = Summarized answer"
  proof -
    have ne: "q3 \<noteq> []" using h(8) by (rule safe_nonempty)
    show ?thesis
      unfolding cs_def
      using h ne by (simp add: sqlQueryAgent_def loop_steps execute_and_summarize_def)
  qed
  show ?thesis using chain scenario unfolding cs_def by blast
qed

theorem feedback_is_joined_issues_witness:
  "extractSchema (demo_ports gen_third) = Inr []
   \<and> generateQuery (demo_ports gen_third) 2 ''how many?'' [] None None = Generated ''DROP TABLE t'' ''DROP TABLE t''
   \<and> warnings (checkQuerySafety ''DROP TABLE t'') = [''No LIMIT clause - query might return many rows'']
   \<and> (\<exists>tr. fst (sqlQueryAgent (demo_ports gen_third) ''how many?''
                  \<lparr>maxRetries = Some 3, maxRows = None, debug = None\<rparr>)
         = Success ''One row.'' ''SELECT 1'' [''1''] 1 ''5ms'' 3
             [''No LIMIT clause - query might return many rows''] tr)
   \<and> filter is_generation (snd (sqlQueryAgent (demo_ports gen_third) ''how many?''
                  \<lparr>maxRetries = Some 3, maxRows = None, debug = None\<rparr>))
       = [GenerateQuery 1 ''how many?'' [] None None,
          GenerateQuery 2 ''how many?'' [] (Some ''DROP TABLE t'')
            (Some ''Query must be a SELECT statement; Destructive keyword detected: DROP''),
          GenerateQuery 3 ''how many?'' [] (Some ''DROP TABLE t'')
            (Some ''Query must be a SELECT statement; Destructive keyword detected: DROP'')]"
proof -
  let ?P = "demo_ports gen_third"
  let ?o = "\<lparr>maxRetries = Some 3, maxRows = None, debug = None\<rparr>"
  have x: "extractSchema ?P = Inr []" by (simp add: demo_ports_def)
  have g: "generateQuery ?P n q s p f =
      (if n < 3 then Generated ''DROP TABLE t'' ''DROP TABLE t'' else Generated ''SELECT 1'' ''SELECT 1'')" for n q s p f
    by (simp add: demo_ports_def gen_third_def)
  have s: "summarizeResults ?P q d t = Summarized ''One row.''" for q d t
    by (simp add: demo_ports_def)
  have hyp: "extractSchema ?P = Inr [] \<and> maxRetries ?o = Some 3
      \<and> (\<forall>prev fb. generateQuery ?P 1 ''how many?'' [] prev fb = Generated ''DROP TABLE t'' ''DROP TABLE t'')
      \<and> (\<forall>prev fb. generateQuery ?P 2 ''how many?'' [] prev fb = Generated ''DROP TABLE t'' ''DROP TABLE t'')
      \<and> (\<forall>prev fb. generateQuery ?P 3 ''how many?'' [] prev fb = Generated ''SELECT 1'' ''SELECT 1'')
      \<and> \<not> safe (checkQuerySafety ''DROP TABLE t'') \<and> \<not> safe (checkQuerySafety ''DROP TABLE t'')
      \<and> safe (checkQuerySafety ''SELECT 1'')
      \<and> executionNode (pool_query ?P) ''SELECT 1'' (case maxRows ?o of None \<Rightarrow> 100 | Some n \<Rightarrow> n)
          = Executed \<lparr>rows = [''1''], rowCount = 1, executionTime = ''5ms'', fields_list = None\<rparr>
      \<and> summarizeResults ?P ''how many?''
            \<lparr>rows = [''1''], rowCount = 1, executionTime = ''5ms'', fields_list = None\<rparr> ''SELECT 1''
          = Summarized ''One row.''"
    by (simp add: x g s verdict_drop_table verdict_select_1 execution_select_1)
  have j: "join ''; '' (issues (checkQuerySafety ''DROP TABLE t''))
      = ''Query must be a SELECT statement; Destructive keyword detected: DROP''"
    by (simp add: verdict_drop_table)
  have w: "warnings (checkQuerySafety ''SELECT 1'') = [''No LIMIT clause - query might return many rows'']"
    "warnings (checkQuerySafety ''DROP TABLE t'') = [''No LIMIT clause - query might return many rows'']"
    by (simp_all add: verdict_select_1 verdict_drop_table)
  show ?thesis
    using hyp feedback_is_joined_issues [of ?P "''how many?''" ?o "[]"
        "''DROP TABLE t''" "''DROP TABLE t''" "''DROP TABLE t''" "''DROP TABLE t''"
        "''SELECT 1''" "''SELECT 1''"
        "\<lparr>rows = [''1''], rowCount = 1, executionTime = ''5ms'', fields_list = None\<rparr>" "''One row.''"]
    unfolding j w by (simp add: g)
qed

text \<open>
  Claim C7 at the input \<open>SELECT credit_limit FROM accounts\<close> with \<open>maxRows = 100\<close>. The
  text is accepted by the safety check and has no \<open>LIMIT\<close> keyword (the whole-word test
  fails), yet \<open>executeQuerySafe\<close> executes it as it is, without a \<open>LIMIT\<close>: its test
  is for the letters \<open>LIMIT\<close> anywhere in the upper-cased text. A text without these
  letters gets its trailing semicolon removed and \<open>LIMIT 100\<close> appended.
\<close>
theorem limit_skipped_for_identifier:
  "safe (checkQuerySafety ''SELECT credit_limit FROM accounts'')
   \<and> \<not> keyword_regex_test ''LIMIT'' ''SELECT credit_limit FROM accounts''
   \<and> executeQuerySafe pool ''SELECT credit_limit FROM accounts'' 100
       = executeQuery pool ''SELECT credit_limit FROM accounts''
   \<and> executeQuerySafe pool ''SELECT name FROM accounts;'' 100
       = executeQuery pool ''SELECT name FROM accounts LIMIT 100''"
proof -
  have "safe (checkQuerySafety ''SELECT credit_limit FROM accounts'')"
    by (simp add: check_eval js_eval)
  moreover have "\<not> keyword_regex_test ''LIMIT'' ''SELECT credit_limit FROM accounts''"
    by (simp add: js_eval)
  moreover have "executeQuerySafe pool ''SELECT credit_limit FROM accounts'' 100
       = executeQuery pool ''SELECT credit_limit FROM accounts''"
    by (simp add: executeQuerySafe_def js_eval)
  moreover have "executeQuerySafe pool ''SELECT name FROM accounts;'' 100
       = executeQuery pool ''SELECT name FROM accounts LIMIT 100''"
    by (simp add: executeQuerySafe_def remove_trailing_semicolon_def number_toString_def
        digit_char_def js_eval)
  ultimately show ?thesis by simp
qed

end
